theory Spec2Isabelle
  imports Complex_Main
begin

section \<open>Data structures (app7.py, lines 8-27)\<close>

text \<open>
  The script stores one \<open>PensionRecord\<close> per year inside a \<open>Block\<close>; the blocks form
  a list kept in the Streamlit session state. A \<open>float\<close> field is modelled by the
  real number it holds (so a field holds no infinity and no NaN); Python's \<open>int\<close> is
  \<open>int\<close>. The calculations are given in exact arithmetic, as the formulas of the
  source read, and again in binary64 arithmetic, with the rounding, underflow and
  overflow of Python's floats.
\<close>

record PensionRecord =
  year :: int
  salary :: real
  accrual_rate :: real
  cpi_index :: real

definition calculate_unit :: "PensionRecord \<Rightarrow> real" where
  "calculate_unit r = (salary r * accrual_rate r) * (1 + cpi_index r)"

record Block =
  index :: int
  record_of :: PensionRecord
  prev_hash :: string
  timestamp :: string

subsection \<open>Text of a block: the f-string of \<open>hash_block\<close>\<close>

text \<open>
  \<open>str\<close> of a Python integer: decimal digits, most significant first, a leading
  minus sign for negative numbers.
\<close>

definition digit_char :: "nat \<Rightarrow> char" where
  "digit_char d = ''0123456789'' ! d"

fun str_nat :: "nat \<Rightarrow> string" where
  "str_nat n = (if n < 10 then [digit_char n] else str_nat (n div 10) @ [digit_char (n mod 10)])"

declare str_nat.simps [simp del]

definition str_int :: "int \<Rightarrow> string" where
  "str_int i = (if i < 0 then CHR ''-'' # str_nat (nat (- i)) else str_nat (nat i))"

text \<open>
  The \<open>repr\<close> that \<open>@dataclass\<close> generates for \<open>PensionRecord\<close>. The \<open>repr\<close> of a
  float is Python's own (shortest round-trip decimal); it is a parameter \<open>frepr\<close> of
  the model.
\<close>

definition repr_record :: "(real \<Rightarrow> string) \<Rightarrow> PensionRecord \<Rightarrow> string" where
  "repr_record frepr r =
     ''PensionRecord(year='' @ str_int (year r) @
     '', salary='' @ frepr (salary r) @
     '', accrual_rate='' @ frepr (accrual_rate r) @
     '', cpi_index='' @ frepr (cpi_index r) @ '')''"

definition block_string :: "(real \<Rightarrow> string) \<Rightarrow> Block \<Rightarrow> string" where
  "block_string frepr b =
     str_int (index b) @ repr_record frepr (record_of b) @ prev_hash b @ timestamp b"

text \<open>
  \<open>hashlib.sha256(s.encode()).hexdigest()\<close> is library code; it is the parameter
  \<open>sha\<close>, a function from the text to the hexadecimal digest.
\<close>

definition hash_block :: "(string \<Rightarrow> string) \<Rightarrow> (real \<Rightarrow> string) \<Rightarrow> Block \<Rightarrow> string" where
  "hash_block sha frepr b = sha (block_string frepr b)"

section \<open>The script (app7.py, lines 33-98)\<close>

datatype py_error = IndexError | ZeroDivisionError | OverflowError

subsection \<open>Session initialisation (lines 33-35)\<close>

text \<open>
  Streamlit executes the script from the top at every interaction; only
  \<open>st.session_state\<close> survives. Line 23 therefore evaluates
  \<open>datetime.datetime.now()\<close> once in every execution, when the class statement
  runs; \<open>now\<close> is that value, the default of \<open>Block.timestamp\<close> during one execution.
\<close>

definition genesis_record :: PensionRecord where
  "genesis_record = \<lparr>year = 2023, salary = 0, accrual_rate = 0, cpi_index = 0\<rparr>"

definition init_chain :: "string \<Rightarrow> Block list" where
  "init_chain now = [\<lparr>index = 0, record_of = genesis_record, prev_hash = ''0'', timestamp = now\<rparr>]"

subsection \<open>Widgets and the append handler (lines 38-58)\<close>

record inputs =
  year_input :: int
  salary_input :: real
  accrual_denom :: int
  cpi_slider :: real
  button :: bool
  npa :: int
  retire_age :: int
  reduction_input :: real

text \<open>
  Lines 48-50: \<open>chain[-1]\<close> raises \<open>IndexError\<close> on an empty list; otherwise the new
  block is stored at the end of the list.
\<close>

definition append_block ::
  "(string \<Rightarrow> string) \<Rightarrow> (real \<Rightarrow> string) \<Rightarrow> string \<Rightarrow> PensionRecord \<Rightarrow> Block list
     \<Rightarrow> py_error + Block list" where
  "append_block sha frepr now new_record chain =
     (case chain of
        [] \<Rightarrow> Inl IndexError
      | _ # _ \<Rightarrow>
          (let prev = hash_block sha frepr (last chain);
               new_block = \<lparr>index = int (length chain), record_of = new_record,
                            prev_hash = prev, timestamp = now\<rparr>
           in Inr (chain @ [new_block])))"

text \<open>Lines 46-50, the body of the button handler.\<close>

definition secure_year ::
  "(string \<Rightarrow> string) \<Rightarrow> (real \<Rightarrow> string) \<Rightarrow> string \<Rightarrow> inputs \<Rightarrow> Block list
     \<Rightarrow> py_error + Block list" where
  "secure_year sha frepr now inp chain =
     (if accrual_denom inp = 0 then Inl ZeroDivisionError
      else
        (let cpi = cpi_slider inp / 100;
             rate = 1 / real_of_int (accrual_denom inp);
             new_record = \<lparr>year = year_input inp, salary = salary_input inp,
                           accrual_rate = rate, cpi_index = cpi\<rparr>
         in append_block sha frepr now new_record chain))"

subsection \<open>Calculations (lines 61-70)\<close>

text \<open>Python's \<open>sum\<close> adds from the left, starting at 0; \<open>chain[1:]\<close> drops the first block.\<close>

definition total_pension_raw :: "Block list \<Rightarrow> real" where
  "total_pension_raw chain =
     foldl (\<lambda>acc u. acc + u) 0 (map (\<lambda>b. calculate_unit (record_of b)) (drop 1 chain))"

text \<open>
  The status message: the early-retirement text carries \<open>total_reduction\<close> and
  \<open>years_early\<close>; the other text is constant.
\<close>

datatype status_msg = Early_Retirement real int | At_Or_After_NPA

record calc =
  raw_total :: real
  final_pension :: real
  status :: status_msg

definition calculations :: "Block list \<Rightarrow> int \<Rightarrow> int \<Rightarrow> real \<Rightarrow> calc" where
  "calculations chain npa_v retire_age_v reduction_rate =
     (let raw = total_pension_raw chain in
      if retire_age_v < npa_v then
        (let years_early = npa_v - retire_age_v;
             total_reduction = real_of_int years_early * reduction_rate
         in \<lparr>raw_total = raw, final_pension = raw * (1 - total_reduction),
             status = Early_Retirement total_reduction years_early\<rparr>)
      else \<lparr>raw_total = raw, final_pension = raw, status = At_Or_After_NPA\<rparr>)"

subsection \<open>Binary64 arithmetic\<close>

text \<open>
  Python's \<open>float\<close> is the IEEE 754 binary64 format. The result of an operation on
  finite values is the exact result rounded to the nearest representable number, ties
  going to the even significand; a rounded result of magnitude \<open>2^1024\<close> or more is an
  infinity. \<open>double_exponent\<close> is the exponent of the last place of the significand:
  52 binary places below the leading bit, and never below \<open>2^-1074\<close>, the spacing of
  the subnormal numbers. The two zeros of the format are one value here, \<open>Finite 0\<close>;
  they compare equal, and no operation of the calculations tells them apart.
\<close>

definition round_half_even :: "real \<Rightarrow> int" where
  "round_half_even q =
     (let f = \<lfloor>q\<rfloor>; d = q - of_int f
      in if d < 1 / 2 then f else if 1 / 2 < d then f + 1 else if even f then f else f + 1)"

definition double_exponent :: "real \<Rightarrow> int" where
  "double_exponent x = max (\<lfloor>log 2 \<bar>x\<bar>\<rfloor> - 52) (- 1074)"

definition double_round :: "real \<Rightarrow> real" where
  "double_round x =
     (if x = 0 then 0
      else of_int (round_half_even (x / 2 powi double_exponent x)) * 2 powi double_exponent x)"

datatype pyfloat = Finite real | PosInf | NegInf | NaN

definition to_double :: "real \<Rightarrow> pyfloat" where
  "to_double x =
     (let r = double_round x
      in if 2 ^ 1024 \<le> r then PosInf else if r \<le> - (2 ^ 1024) then NegInf else Finite r)"

fun fneg :: "pyfloat \<Rightarrow> pyfloat" where
  "fneg (Finite x) = Finite (- x)"
| "fneg PosInf = NegInf"
| "fneg NegInf = PosInf"
| "fneg NaN = NaN"

fun fadd :: "pyfloat \<Rightarrow> pyfloat \<Rightarrow> pyfloat" where
  "fadd (Finite x) (Finite y) = to_double (x + y)"
| "fadd NaN _ = NaN"
| "fadd _ NaN = NaN"
| "fadd PosInf NegInf = NaN"
| "fadd NegInf PosInf = NaN"
| "fadd PosInf _ = PosInf"
| "fadd _ PosInf = PosInf"
| "fadd NegInf _ = NegInf"
| "fadd _ NegInf = NegInf"

definition fsub :: "pyfloat \<Rightarrow> pyfloat \<Rightarrow> pyfloat" where
  "fsub a b = fadd a (fneg b)"

fun fmul :: "pyfloat \<Rightarrow> pyfloat \<Rightarrow> pyfloat" where
  "fmul (Finite x) (Finite y) = to_double (x * y)"
| "fmul NaN _ = NaN"
| "fmul _ NaN = NaN"
| "fmul (Finite x) PosInf = (if x = 0 then NaN else if 0 < x then PosInf else NegInf)"
| "fmul (Finite x) NegInf = (if x = 0 then NaN else if 0 < x then NegInf else PosInf)"
| "fmul PosInf (Finite y) = (if y = 0 then NaN else if 0 < y then PosInf else NegInf)"
| "fmul NegInf (Finite y) = (if y = 0 then NaN else if 0 < y then NegInf else PosInf)"
| "fmul PosInf PosInf = PosInf"
| "fmul PosInf NegInf = NegInf"
| "fmul NegInf PosInf = NegInf"
| "fmul NegInf NegInf = PosInf"

text \<open>The comparison \<open><\<close> of two floats: false whenever an operand is NaN.\<close>

fun fless :: "pyfloat \<Rightarrow> pyfloat \<Rightarrow> bool" where
  "fless (Finite x) (Finite y) = (x < y)"
| "fless NaN _ = False"
| "fless _ NaN = False"
| "fless _ NegInf = False"
| "fless NegInf _ = True"
| "fless PosInf _ = False"
| "fless _ PosInf = True"

text \<open>
  The conversion of an \<open>int\<close> operand of a mixed operation: the nearest float, and
  \<open>OverflowError\<close> for an integer too large to convert.
\<close>

definition float_of_int :: "int \<Rightarrow> py_error + pyfloat" where
  "float_of_int i =
     (case to_double (of_int i) of Finite r \<Rightarrow> Inr (Finite r) | _ \<Rightarrow> Inl OverflowError)"

text \<open>
  Lines 16, 61 and 63-66 in binary64 arithmetic, on records whose float fields hold
  the values stored. The integer 0 that \<open>sum\<close> starts from and the integer 1 of
  \<open>1 + cpi_index\<close> and \<open>1 - total_reduction\<close> convert exactly. The additions of \<open>sum\<close>
  are made from the left (CPython from 3.12 on adds floats with a compensated sum,
  which gives the same total for a single contribution); lines 63-66 are therefore
  stated on the raw total as a value, however it was added up.
\<close>

definition calculate_unit_double :: "PensionRecord \<Rightarrow> pyfloat" where
  "calculate_unit_double r =
     fmul (fmul (Finite (salary r)) (Finite (accrual_rate r))) (fadd (Finite 1) (Finite (cpi_index r)))"

definition total_pension_raw_double :: "Block list \<Rightarrow> pyfloat" where
  "total_pension_raw_double chain =
     foldl fadd (Finite 0) (map (\<lambda>b. calculate_unit_double (record_of b)) (drop 1 chain))"

definition total_reduction_double :: "int \<Rightarrow> int \<Rightarrow> real \<Rightarrow> py_error + pyfloat" where
  "total_reduction_double npa_v retire_age_v reduction_rate =
     (let years_early = npa_v - retire_age_v
      in case float_of_int years_early of
           Inl e \<Rightarrow> Inl e
         | Inr y \<Rightarrow> Inr (fmul y (Finite reduction_rate)))"

definition final_pension_double :: "pyfloat \<Rightarrow> int \<Rightarrow> int \<Rightarrow> real \<Rightarrow> py_error + pyfloat" where
  "final_pension_double raw npa_v retire_age_v reduction_rate =
     (if retire_age_v < npa_v then
        (case total_reduction_double npa_v retire_age_v reduction_rate of
           Inl e \<Rightarrow> Inl e
         | Inr total_reduction \<Rightarrow> Inr (fmul raw (fsub (Finite 1) total_reduction)))
      else Inr raw)"

subsection \<open>Ledger table (lines 85-95)\<close>

text \<open>
  One row per block after the first. The values are kept as numbers (the
  formatting of the f-strings is display only). In \<open>int(1/accrual_rate)\<close> the
  division raises \<open>ZeroDivisionError\<close> for a zero rate; its result is the binary64
  quotient, and \<open>int\<close> raises \<open>OverflowError\<close> when that is an infinity and truncates
  it towards zero otherwise. A field of the model is a real number: a stored NaN, for
  which \<open>int\<close> raises \<open>ValueError\<close>, is not a value a record can hold here.
\<close>

record table_row =
  row_year :: int
  row_salary :: real
  row_accrual :: int
  row_inflation :: real
  row_pension :: real
  row_hash :: string

definition py_int :: "real \<Rightarrow> int" where
  "py_int x = (if 0 \<le> x then \<lfloor>x\<rfloor> else \<lceil>x\<rceil>)"

fun ledger_table ::
  "(string \<Rightarrow> string) \<Rightarrow> (real \<Rightarrow> string) \<Rightarrow> Block list \<Rightarrow> py_error + table_row list" where
  "ledger_table sha frepr [] = Inr []"
| "ledger_table sha frepr (block # rest) =
     (if accrual_rate (record_of block) = 0 then Inl ZeroDivisionError
      else
        (case to_double (1 / accrual_rate (record_of block)) of
           Finite q \<Rightarrow>
             (let row = \<lparr>row_year = year (record_of block),
                         row_salary = salary (record_of block),
                         row_accrual = py_int q,
                         row_inflation = cpi_index (record_of block),
                         row_pension = calculate_unit (record_of block),
                         row_hash = take 15 (hash_block sha frepr block) @ ''...''\<rparr>
              in case ledger_table sha frepr rest of
                   Inl e \<Rightarrow> Inl e
                 | Inr rows \<Rightarrow> Inr (row # rows))
         | _ \<Rightarrow> Inl OverflowError))"

subsection \<open>One execution of the script\<close>

record page =
  metrics :: calc
  adjustment_factor :: real
  table :: "table_row list"

text \<open>
  \<open>session\<close> is \<open>None\<close> when \<open>"chain"\<close> is not in the session state. The result is the
  chain left in the session state and either the page shown or the exception that
  ended the execution.
\<close>

definition script_run ::
  "(string \<Rightarrow> string) \<Rightarrow> (real \<Rightarrow> string) \<Rightarrow> string \<Rightarrow> inputs \<Rightarrow> Block list option
     \<Rightarrow> Block list \<times> (py_error + page)" where
  "script_run sha frepr now inp session =
     (let chain0 = (case session of None \<Rightarrow> init_chain now | Some c \<Rightarrow> c) in
      case (if button inp then secure_year sha frepr now inp chain0 else Inr chain0) of
        Inl e \<Rightarrow> (chain0, Inl e)
      | Inr chain \<Rightarrow>
          (let c = calculations chain (npa inp) (retire_age inp) (reduction_input inp / 100);
               factor = final_pension c / max (raw_total c) 1
           in case ledger_table sha frepr (drop 1 chain) of
                Inl e \<Rightarrow> (chain, Inl e)
              | Inr rows \<Rightarrow> (chain, Inr \<lparr>metrics = c, adjustment_factor = factor, table = rows\<rparr>)))"

text \<open>A session: the executions of the script in order, each with its clock and widget values.\<close>

fun run_session ::
  "(string \<Rightarrow> string) \<Rightarrow> (real \<Rightarrow> string) \<Rightarrow> (string \<times> inputs) list \<Rightarrow> Block list option
     \<Rightarrow> Block list option" where
  "run_session sha frepr [] session = session"
| "run_session sha frepr ((now, inp) # rest) session =
     run_session sha frepr rest (Some (fst (script_run sha frepr now inp session)))"

subsection \<open>The concrete scenario\<close>

text \<open>
  One contribution is logged in the second execution of a session: year 2025, salary
  50000, accrual denominator 49, inflation slider 2 (per cent); retirement at 65
  with normal pension age 67 and 4 per cent reduction per year.
\<close>

definition scenario_inputs :: inputs where
  "scenario_inputs =
     \<lparr>year_input = 2025, salary_input = 50000, accrual_denom = 49, cpi_slider = 2,
      button = True, npa = 67, retire_age = 65, reduction_input = 4\<rparr>"

definition scenario_chain :: "(string \<Rightarrow> string) \<Rightarrow> (real \<Rightarrow> string) \<Rightarrow> Block list" where
  "scenario_chain sha frepr =
     fst (script_run sha frepr ''2025-01-01 09:05:00'' scenario_inputs
            (Some (init_chain ''2025-01-01 09:00:00'')))"

subsection \<open>Ledger states\<close>

text \<open>
  The chains a session can hold: the chain of line 35, and every chain obtained from
  such a chain by the append of lines 48-50, with any record and any clock value.
\<close>

inductive ledger_reachable :: "(string \<Rightarrow> string) \<Rightarrow> (real \<Rightarrow> string) \<Rightarrow> Block list \<Rightarrow> bool"
  for sha :: "string \<Rightarrow> string" and frepr :: "real \<Rightarrow> string" where
  genesis: "ledger_reachable sha frepr (init_chain now)"
| appended: "ledger_reachable sha frepr chain \<Longrightarrow>
     append_block sha frepr now new_record chain = Inr chain' \<Longrightarrow>
     ledger_reachable sha frepr chain'"


text \<open>The float fields of a block, the values whose \<open>repr\<close> enters its text.\<close>

definition float_fields :: "Block \<Rightarrow> real set" where
  "float_fields b = {salary (record_of b), accrual_rate (record_of b), cpi_index (record_of b)}"

subsection \<open>Further concrete data\<close>

text \<open>Python's \<open>repr\<close> on the floats of the scenario (any other value is mapped to the text of 0.0).\<close>

definition scenario_frepr :: "real \<Rightarrow> string" where
  "scenario_frepr x =
     (if x = 50000 then ''50000.0''
      else if x = 1 / 49 then ''0.02040816326530612''
      else if x = 2 / 100 then ''0.02''
      else ''0.0'')"

text \<open>A second contribution, logged a year later, and the same chain with the salary
  of block 1 overwritten afterwards.\<close>

definition later_chain :: "(string \<Rightarrow> string) \<Rightarrow> (real \<Rightarrow> string) \<Rightarrow> Block list" where
  "later_chain sha frepr =
     fst (script_run sha frepr ''2026-01-01 09:00:00''
            (scenario_inputs\<lparr>year_input := 2026, salary_input := 52000\<rparr>)
            (Some (scenario_chain sha frepr)))"



text \<open>
  One stored contribution whose salary is the float \<open>2^-1068\<close>, with accrual
  denominator 49 (the stored rate is the float nearest to 1/49) and the inflation
  slider at 0.
\<close>

definition underflow_record :: PensionRecord where
  "underflow_record =
     \<lparr>year = 2025, salary = 1 / 2 ^ 1068, accrual_rate = 5882252574524729 / 2 ^ 58, cpi_index = 0\<rparr>"

definition underflow_chain :: "(string \<Rightarrow> string) \<Rightarrow> (real \<Rightarrow> string) \<Rightarrow> Block list" where
  "underflow_chain sha frepr =
     init_chain ''2025-01-01 09:00:00'' @
     [\<lparr>index = 1, record_of = underflow_record,
       prev_hash = hash_block sha frepr (last (init_chain ''2025-01-01 09:00:00'')),
       timestamp = ''2025-01-01 09:05:00''\<rparr>]"

text \<open>
  The contribution of the scenario as the floats stored: salary 50000, the float
  nearest to 1/49 and the float nearest to 0.02.
\<close>

definition stored_scenario_record :: PensionRecord where
  "stored_scenario_record =
     \<lparr>year = 2025, salary = 50000, accrual_rate = 5882252574524729 / 2 ^ 58,
      cpi_index = 5764607523034235 / 2 ^ 58\<rparr>"

definition stored_scenario_chain :: "(string \<Rightarrow> string) \<Rightarrow> (real \<Rightarrow> string) \<Rightarrow> Block list" where
  "stored_scenario_chain sha frepr =
     init_chain ''2025-01-01 09:00:00'' @
     [\<lparr>index = 1, record_of = stored_scenario_record,
       prev_hash = hash_block sha frepr (last (init_chain ''2025-01-01 09:00:00'')),
       timestamp = ''2025-01-01 09:05:00''\<rparr>]"

section \<open>Properties\<close>

subsection \<open>Auxiliary facts: binary64 rounding\<close>

lemma rhe_int: "round_half_even (of_int m) = m"
  by (simp add: round_half_even_def)

lemma rhe_nonneg: "0 \<le> q \<Longrightarrow> 0 \<le> round_half_even q"
  by (auto simp: round_half_even_def Let_def)

lemma rhe_nonpos: "q \<le> 0 \<Longrightarrow> round_half_even q \<le> 0"
proof -
  assume q: "q \<le> 0"
  have f: "\<lfloor>q\<rfloor> \<le> 0" using q by (simp add: floor_le_zero)
  show ?thesis
  proof (cases "\<lfloor>q\<rfloor> = 0")
    case True
    then have "0 \<le> q" by (metis of_int_floor_le of_int_0)
    with q have "q = 0" by simp
    then show ?thesis by (simp add: round_half_even_def)
  next
    case False
    with f have "\<lfloor>q\<rfloor> + 1 \<le> 0" by linarith
    with f show ?thesis by (auto simp: round_half_even_def Let_def)
  qed
qed

lemma rhe_below: "q < - (1 / 2) \<Longrightarrow> round_half_even q \<le> - 1"
proof -
  assume q: "q < - (1 / 2)"
  then have f: "\<lfloor>q\<rfloor> \<le> - 1" by (simp add: floor_le_iff)
  show ?thesis
  proof (cases "\<lfloor>q\<rfloor> = - 1")
    case True
    then have "q - of_int \<lfloor>q\<rfloor> < 1 / 2" using q by simp
    with True show ?thesis by (simp add: round_half_even_def Let_def)
  next
    case False
    with f have "\<lfloor>q\<rfloor> + 1 \<le> - 1" by simp
    with f show ?thesis by (auto simp: round_half_even_def Let_def)
  qed
qed

lemma rhe_small: "\<bar>q\<bar> \<le> 1 / 2 \<Longrightarrow> round_half_even q = 0"
proof -
  assume a: "\<bar>q\<bar> \<le> 1 / 2"
  show ?thesis
  proof (cases "0 \<le> q")
    case True
    with a have "\<lfloor>q\<rfloor> = 0" by (simp add: floor_eq_iff)
    with a True show ?thesis by (simp add: round_half_even_def Let_def)
  next
    case False
    with a have f: "\<lfloor>q\<rfloor> = - 1" by (simp add: floor_eq_iff)
    from a False have "1 / 2 \<le> q - of_int \<lfloor>q\<rfloor>" by (simp add: f)
    with f show ?thesis by (auto simp: round_half_even_def Let_def)
  qed
qed

lemma two_powr_of_int: "(2::real) powr (of_int k) = 2 powi k"
  by (simp add: powr_real_of_int')

lemma floor_log2_bounds:
  assumes "x \<noteq> 0"
  shows "2 powi \<lfloor>log 2 \<bar>x\<bar>\<rfloor> \<le> \<bar>x\<bar>" and "\<bar>x\<bar> < 2 powi (\<lfloor>log 2 \<bar>x\<bar>\<rfloor> + 1)"
proof -
  have pos: "0 < \<bar>x\<bar>" using assms by simp
  have "2 powr (of_int \<lfloor>log 2 \<bar>x\<bar>\<rfloor>) \<le> 2 powr (log 2 \<bar>x\<bar>)"
    by (simp add: powr_le_cancel_iff)
  also have "\<dots> = \<bar>x\<bar>" using pos by simp
  finally show "2 powi \<lfloor>log 2 \<bar>x\<bar>\<rfloor> \<le> \<bar>x\<bar>"
    by (simp only: two_powr_of_int)
  have "log 2 \<bar>x\<bar> < of_int (\<lfloor>log 2 \<bar>x\<bar>\<rfloor> + 1)"
    by linarith
  then have "2 powr (log 2 \<bar>x\<bar>) < 2 powr (of_int (\<lfloor>log 2 \<bar>x\<bar>\<rfloor> + 1))"
    by (simp only: powr_less_cancel_iff) 
  moreover have "2 powr (log 2 \<bar>x\<bar>) = \<bar>x\<bar>" using pos by simp
  ultimately show "\<bar>x\<bar> < 2 powi (\<lfloor>log 2 \<bar>x\<bar>\<rfloor> + 1)"
    by (simp only: two_powr_of_int)
qed

lemma floor_log2_eq:
  assumes "2 powi k \<le> \<bar>x\<bar>" and "\<bar>x\<bar> < 2 powi (k + 1)"
  shows "\<lfloor>log 2 \<bar>x\<bar>\<rfloor> = k"
proof -
  have pos: "0 < \<bar>x\<bar>"
    using assms(1) by (smt (verit) zero_less_power_int)
  have "2 powr (of_int k) \<le> \<bar>x\<bar>" using assms(1) by (simp only: two_powr_of_int)
  then have lo: "of_int k \<le> log 2 \<bar>x\<bar>" using pos by (simp add: le_log_iff)
  have "\<bar>x\<bar> < 2 powr (of_int (k + 1))" using assms(2) by (simp only: two_powr_of_int)
  then have hi: "log 2 \<bar>x\<bar> < of_int (k + 1)" using pos by (simp add: log_less_iff)
  from lo hi show ?thesis by (simp add: floor_eq_iff)
qed

lemma two_powi_le: "(2::real) powi a \<le> 2 powi b \<longleftrightarrow> a \<le> b"
  unfolding two_powr_of_int [symmetric] by simp

lemma two_powi_less: "(2::real) powi a < 2 powi b \<longleftrightarrow> a < b"
  unfolding two_powr_of_int [symmetric] by simp

lemma double_exponent_ge: "- 1074 \<le> double_exponent x"
  by (simp add: double_exponent_def)

lemma double_round_eval:
  assumes "2 powi k \<le> \<bar>x\<bar>" and "\<bar>x\<bar> < 2 powi (k + 1)"
  shows "double_round x =
    of_int (round_half_even (x / 2 powi max (k - 52) (- 1074))) * 2 powi max (k - 52) (- 1074)"
proof -
  have "x \<noteq> 0" using assms(1) by (smt (verit) zero_less_power_int abs_zero)
  moreover have "double_exponent x = max (k - 52) (- 1074)"
    using floor_log2_eq [OF assms] by (simp add: double_exponent_def)
  ultimately show ?thesis by (simp add: double_round_def)
qed

lemma double_round_nonpos: "x \<le> 0 \<Longrightarrow> double_round x \<le> 0"
proof -
  assume x: "x \<le> 0"
  have p: "0 < (2::real) powi double_exponent x" by simp
  with x have "x / 2 powi double_exponent x \<le> 0" by (simp add: divide_nonpos_pos)
  then have "round_half_even (x / 2 powi double_exponent x) \<le> 0" by (rule rhe_nonpos)
  then have "of_int (round_half_even (x / 2 powi double_exponent x)) * 2 powi double_exponent x \<le> (0::real)"
    using p by (simp add: mult_le_0_iff)
  then show ?thesis by (simp add: double_round_def)
qed

lemma quotient_large:
  assumes "x \<noteq> 0" and "- 1074 < double_exponent x"
  shows "2 ^ 52 \<le> \<bar>x\<bar> / 2 powi double_exponent x"
proof -
  let ?k = "\<lfloor>log 2 \<bar>x\<bar>\<rfloor>"
  from assms(2) have e: "double_exponent x = ?k - 52" by (simp add: double_exponent_def max_def split: if_splits)
  have "(2::real) ^ 52 * 2 powi (?k - 52) = 2 powi 52 * 2 powi (?k - 52)" by simp
  also have "\<dots> = 2 powi ?k" by (simp add: power_int_add [symmetric] del: power_int_numeral)
  also have "\<dots> \<le> \<bar>x\<bar>" using floor_log2_bounds(1) [OF assms(1)] .
  finally show ?thesis by (simp add: e pos_le_divide_eq)
qed

lemma double_round_neg:
  assumes "x < - (2 powi (- 1075))"
  shows "double_round x < 0"
proof -
  let ?e = "double_exponent x"
  have x0: "x \<noteq> 0" and xn: "x < 0" using assms by (smt (verit) zero_less_power_int)+
  have p: "0 < (2::real) powi ?e" by simp
  have q: "x / 2 powi ?e < - (1 / 2)"
  proof (cases "?e = - 1074")
    case True
    have "(2::real) powi (- 1075) = 1 / 2 * 2 powi (- 1074)"
      by (simp add: power_int_minus field_simps)
    with assms have "x < - (1 / 2) * 2 powi (- 1074)" by simp
    then have "x / 2 powi (- 1074) < - (1 / 2)" by (simp add: pos_divide_less_eq)
    with True show ?thesis by simp
  next
    case False
    with double_exponent_ge [of x] have "- 1074 < ?e" by simp
    from quotient_large [OF x0 this] have "2 ^ 52 \<le> \<bar>x\<bar> / 2 powi ?e" .
    moreover have "\<bar>x\<bar> / 2 powi ?e = - (x / 2 powi ?e)" using xn by simp
    ultimately have "x / 2 powi ?e \<le> - (2 ^ 52)" by simp
    then show ?thesis by simp
  qed
  from rhe_below [OF q] have "real_of_int (round_half_even (x / 2 powi ?e)) \<le> - 1" by linarith
  then have "real_of_int (round_half_even (x / 2 powi ?e)) * 2 powi ?e \<le> - 1 * 2 powi ?e"
    using p by (simp only: mult_le_cancel_right_pos)
  also have "\<dots> < 0" using p by simp
  finally show ?thesis using x0 by (simp add: double_round_def)
qed

lemma double_round_underflow:
  assumes "\<bar>x\<bar> \<le> 2 powi (- 1075)"
  shows "double_round x = 0"
proof (cases "x = 0")
  case True
  then show ?thesis by (simp add: double_round_def)
next
  case False
  have "2 powi \<lfloor>log 2 \<bar>x\<bar>\<rfloor> \<le> \<bar>x\<bar>" using floor_log2_bounds(1) [OF False] .
  also note assms
  finally have "\<lfloor>log 2 \<bar>x\<bar>\<rfloor> \<le> - 1075"
    by (simp only: two_powi_le)
  then have e: "double_exponent x = - 1074" unfolding double_exponent_def by linarith
  have "(2::real) powi (- 1075) = 1 / 2 * 2 powi (- 1074)"
    by (simp add: power_int_minus field_simps)
  with assms have "\<bar>x\<bar> \<le> 1 / 2 * 2 powi (- 1074)" by simp
  then have "\<bar>x\<bar> / 2 powi (- 1074) \<le> 1 / 2" by (simp add: pos_divide_le_eq)
  then have "\<bar>x / 2 powi (- 1074)\<bar> \<le> 1 / 2" by simp
  from rhe_small [OF this] show ?thesis using False by (simp add: double_round_def e)
qed

lemma double_round_exact:
  assumes x: "x = of_int m * 2 powi e" and m: "\<bar>m\<bar> < 2 ^ 53" and e: "- 1074 \<le> e"
  shows "double_round x = x"
proof (cases "x = 0")
  case True
  then show ?thesis by (simp add: double_round_def)
next
  case False
  let ?k = "\<lfloor>log 2 \<bar>x\<bar>\<rfloor>" and ?e' = "double_exponent x"
  have "\<bar>x\<bar> = \<bar>of_int m\<bar> * 2 powi e" by (simp add: x abs_mult)
  also have "\<dots> < 2 ^ 53 * 2 powi e"
  proof -
    have "\<bar>real_of_int m\<bar> < 2 ^ 53" using m by (metis of_int_abs of_int_less_numeral_power_cancel_iff)
    then show ?thesis by (simp only: mult_less_cancel_right_pos zero_less_power_int zero_less_numeral)
  qed
  also have "\<dots> = 2 powi 53 * 2 powi e" by simp
  also have "\<dots> = 2 powi (53 + e)" by (simp add: power_int_add del: power_int_numeral)
  finally have "\<bar>x\<bar> < 2 powi (53 + e)" .
  with floor_log2_bounds(1) [OF False] have "(2::real) powi ?k < 2 powi (53 + e)" by linarith
  then have "?k < 53 + e" by (simp only: two_powi_less)
  with e have le: "?e' \<le> e" unfolding double_exponent_def by linarith
  define e' where "e' = ?e'"
  define n where "n = nat (e - e')"
  have en: "e = e' + int n" using le by (simp add: n_def e'_def)
  have pe: "(2::real) powi e = 2 powi e' * 2 ^ n"
    by (subst en) (simp add: power_int_add)
  have "x / 2 powi e' = of_int m * (2 powi e' * 2 ^ n) / 2 powi e'" by (simp only: x pe)
  also have "\<dots> = of_int (m * 2 ^ n)" by simp
  finally have q: "x / 2 powi e' = of_int (m * 2 ^ n)" .
  have "round_half_even (x / 2 powi e') = m * 2 ^ n"
    unfolding q by (rule rhe_int)
  then have "double_round x = of_int (m * 2 ^ n) * 2 powi e'"
    using False by (simp add: double_round_def e'_def)
  also have "\<dots> = x / 2 powi e' * 2 powi e'" by (simp only: q)
  also have "\<dots> = x" by simp
  finally show ?thesis .
qed

lemma double_round_grid: "\<exists>m e. double_round x = of_int m * 2 powi e \<and> - 1074 \<le> e"
proof (cases "x = 0")
  case True
  then have "double_round x = of_int 0 * 2 powi 0" by (simp add: double_round_def)
  then show ?thesis by (metis neg_le_0_iff_le zero_le_numeral)
next
  case False
  then have "double_round x = of_int (round_half_even (x / 2 powi double_exponent x)) * 2 powi double_exponent x"
    by (simp add: double_round_def)
  with double_exponent_ge [of x] show ?thesis by blast
qed

lemma grid_gap_above_one:
  assumes t: "t = of_int m * 2 powi e" and e: "- 1074 \<le> e" and gt: "1 < t"
  shows "(2::real) powi (- 1074) \<le> t - 1"
proof (cases "0 < e")
  case True
  define n where "n = nat e"
  have "e = int n" using True by (simp add: n_def)
  then have teq: "t = of_int (m * 2 ^ n)" by (simp add: t)
  from gt have "(1::real) < of_int (m * 2 ^ n)" by (simp only: teq)
  then have "1 < m * 2 ^ n" by (simp only: of_int_1_less_iff)
  then have "2 \<le> m * 2 ^ n" by simp
  then have "(2::real) \<le> of_int (m * 2 ^ n)" by linarith
  then have "2 \<le> t" by (simp only: teq)
  moreover have "(2::real) powi (- 1074) \<le> 1" using two_powi_le [of "- 1074" 0] by simp
  ultimately show ?thesis by linarith
next
  case False
  define n where "n = nat (- e)"
  have en: "e = - int n" using False by (simp add: n_def)
  have one: "(1::real) = of_int (2 ^ n) * 2 powi e"
    by (simp add: en power_int_minus)
  have "t - 1 = of_int (m - 2 ^ n) * 2 powi e"
    by (subst one) (simp add: t algebra_simps)
  moreover have "0 < of_int (m - 2 ^ n) * (2::real) powi e"
    using gt calculation by simp
  then have "0 < real_of_int (m - 2 ^ n)"
    by (rule zero_less_mult_pos2) simp
  then have "0 < m - 2 ^ n" by (simp only: of_int_0_less_iff)
  then have "1 \<le> real_of_int (m - 2 ^ n)" by linarith
  then have "1 * 2 powi e \<le> real_of_int (m - 2 ^ n) * 2 powi e"
    by (simp only: mult_le_cancel_right_pos zero_less_power_int zero_less_numeral)
  moreover have "(2::real) powi (- 1074) \<le> 2 powi e" using e by (simp only: two_powi_le)
  ultimately show ?thesis by linarith
qed

lemma double_round_diff_neg:
  assumes "1 < double_round z"
  shows "double_round (1 - double_round z) < 0"
proof -
  from double_round_grid [of z] obtain m e where g: "double_round z = of_int m * 2 powi e" "- 1074 \<le> e"
    by blast
  from grid_gap_above_one [OF g assms] have "2 powi (- 1074) \<le> double_round z - 1" .
  moreover have "(2::real) powi (- 1075) < 2 powi (- 1074)" using two_powi_less [of "- 1075" "- 1074"] by simp
  ultimately have "1 - double_round z < - (2 powi (- 1075))" by linarith
  then show ?thesis by (rule double_round_neg)
qed

lemma to_double_exact:
  assumes x: "x = of_int m * 2 powi e" and m: "\<bar>m\<bar> < 2 ^ 53" and e: "- 1074 \<le> e" "e \<le> 971"
  shows "to_double x = Finite x"
proof -
  have r: "double_round x = x" using x m e(1) by (rule double_round_exact)
  have "\<bar>real_of_int m\<bar> < 2 ^ 53"
    using m by (metis of_int_abs of_int_less_numeral_power_cancel_iff)
  then have "\<bar>real_of_int m\<bar> * 2 powi e < 2 ^ 53 * 2 powi e"
    by (simp only: mult_less_cancel_right_pos zero_less_power_int zero_less_numeral)
  moreover have "(2::real) powi e \<le> 2 powi 971" using e(2) by (simp only: two_powi_le)
  then have "(2::real) ^ 53 * 2 powi e \<le> 2 ^ 53 * 2 powi 971" by simp
  moreover have "(2::real) ^ 53 * 2 powi 971 = 2 ^ 1024" by simp
  moreover have "\<bar>x\<bar> = \<bar>real_of_int m\<bar> * 2 powi e" by (simp add: x abs_mult)
  ultimately have "\<bar>x\<bar> < 2 ^ 1024" by linarith
  then have "\<not> 2 ^ 1024 \<le> x" and "\<not> x \<le> - (2 ^ 1024)" by linarith+
  then show ?thesis by (simp add: to_double_def r)
qed

lemma to_double_of_int:
  assumes "\<bar>m\<bar> < 2 ^ 53"
  shows "to_double (of_int m) = Finite (of_int m)"
  using to_double_exact [of "of_int m" m 0] assms by simp

subsection \<open>Auxiliary facts: sums and the scenario\<close>

lemma foldl_add_sum_list: "foldl (\<lambda>acc u. acc + u) (a::real) xs = a + sum_list xs"
  by (induction xs arbitrary: a) (simp_all add: add.assoc)

lemma total_pension_raw_sum_list:
  "total_pension_raw chain = (\<Sum>b\<leftarrow>drop 1 chain. calculate_unit (record_of b))"
  by (simp add: total_pension_raw_def foldl_add_sum_list)

lemma total_pension_raw_nth:
  "total_pension_raw chain = (\<Sum>i = 1..<length chain. calculate_unit (record_of (chain ! i)))"
proof (cases chain)
  case Nil
  then show ?thesis by (simp add: total_pension_raw_sum_list)
next
  case (Cons g rest)
  have "(\<Sum>b\<leftarrow>rest. calculate_unit (record_of b))
          = (\<Sum>i = 0..<length rest. calculate_unit (record_of (rest ! i)))"
    by (simp add: sum_list_sum_nth atLeast0LessThan)
  also have "\<dots> = (\<Sum>i = 0..<length rest. calculate_unit (record_of ((g # rest) ! (i + 1))))"
    by simp
  also have "\<dots> = (\<Sum>i = 0 + 1..<length rest + 1. calculate_unit (record_of ((g # rest) ! i)))"
    by (rule sum.shift_bounds_nat_ivl [symmetric])
  finally show ?thesis using Cons by (simp add: total_pension_raw_sum_list)
qed

lemma scenario_chain_blocks:
  "scenario_chain sha frepr =
     [\<lparr>index = 0, record_of = genesis_record, prev_hash = ''0'',
       timestamp = ''2025-01-01 09:00:00''\<rparr>,
      \<lparr>index = 1,
       record_of = \<lparr>year = 2025, salary = 50000, accrual_rate = 1 / 49, cpi_index = 2 / 100\<rparr>,
       prev_hash = hash_block sha frepr
         \<lparr>index = 0, record_of = genesis_record, prev_hash = ''0'',
          timestamp = ''2025-01-01 09:00:00''\<rparr>,
       timestamp = ''2025-01-01 09:05:00''\<rparr>]"
  by (simp add: scenario_chain_def script_run_def scenario_inputs_def secure_year_def
      append_block_def init_chain_def Let_def split: sum.splits)

lemma scenario_total: "total_pension_raw (scenario_chain sha frepr) = 51000 / 49"
  by (simp add: scenario_chain_blocks total_pension_raw_def calculate_unit_def)

subsection \<open>Auxiliary facts: appending and reachable chains\<close>

lemma append_block_Inr:
  "append_block sha frepr now r chain = Inr chain' \<longleftrightarrow>
     chain \<noteq> [] \<and>
     chain' = chain @ [\<lparr>index = int (length chain), record_of = r,
                         prev_hash = hash_block sha frepr (last chain), timestamp = now\<rparr>]"
  by (auto simp: append_block_def Let_def split: list.splits)

lemma scenario_chain_append:
  "append_block sha frepr ''2025-01-01 09:05:00''
     \<lparr>year = 2025, salary = 50000, accrual_rate = 1 / 49, cpi_index = 2 / 100\<rparr>
     (init_chain ''2025-01-01 09:00:00'') = Inr (scenario_chain sha frepr)"
  by (simp add: scenario_chain_blocks append_block_Inr init_chain_def)

lemma scenario_chain_reachable: "ledger_reachable sha frepr (scenario_chain sha frepr)"
  by (rule appended [OF genesis scenario_chain_append])

lemma ledger_reachable_invariant:
  assumes "ledger_reachable sha frepr chain"
  shows "chain \<noteq> [] \<and>
         index (chain ! 0) = 0 \<and> prev_hash (chain ! 0) = ''0'' \<and>
         record_of (chain ! 0) = \<lparr>year = 2023, salary = 0, accrual_rate = 0, cpi_index = 0\<rparr> \<and>
         (\<forall>i < length chain. index (chain ! i) = int i) \<and>
         (\<forall>i. 0 < i \<and> i < length chain \<longrightarrow>
            prev_hash (chain ! i) = hash_block sha frepr (chain ! (i - 1)))"
  using assms
proof (induction rule: ledger_reachable.induct)
  case (genesis now)
  show ?case by (simp add: init_chain_def genesis_record_def)
next
  case (appended chain now new_record chain')
  from appended.hyps(2) have ne: "chain \<noteq> []"
    and c': "chain' = chain @ [\<lparr>index = int (length chain), record_of = new_record,
                         prev_hash = hash_block sha frepr (last chain), timestamp = now\<rparr>]"
    by (simp_all add: append_block_Inr)
  have idx: "\<forall>i < length chain'. index (chain' ! i) = int i"
    using appended.IH by (auto simp: c' nth_append)
  have link: "\<forall>i. 0 < i \<and> i < length chain' \<longrightarrow>
            prev_hash (chain' ! i) = hash_block sha frepr (chain' ! (i - 1))"
  proof (intro allI impI)
    fix i assume i: "0 < i \<and> i < length chain'"
    show "prev_hash (chain' ! i) = hash_block sha frepr (chain' ! (i - 1))"
    proof (cases "i < length chain")
      case True
      then have "i - 1 < length chain" by simp
      with True show ?thesis using appended.IH i by (simp add: c' nth_append)
    next
      case False
      with i have "i = length chain" by (simp add: c')
      then show ?thesis using ne by (simp add: c' nth_append last_conv_nth)
    qed
  qed
  show ?case using appended.IH ne idx link by (simp add: c' nth_append)
qed

lemma ledger_reachable_nonempty: "ledger_reachable sha frepr chain \<Longrightarrow> chain \<noteq> []"
  by (induction rule: ledger_reachable.induct) (simp_all add: init_chain_def append_block_Inr)

lemma secure_year_reachable:
  "ledger_reachable sha frepr chain \<Longrightarrow> secure_year sha frepr now inp chain = Inr chain' \<Longrightarrow>
     ledger_reachable sha frepr chain'"
  by (auto simp: secure_year_def Let_def split: if_splits intro: appended)

lemma script_run_reachable:
  assumes "session = None \<or> (\<exists>c. session = Some c \<and> ledger_reachable sha frepr c)"
  shows "ledger_reachable sha frepr (fst (script_run sha frepr now inp session))"
proof -
  define chain0 where "chain0 = (case session of None \<Rightarrow> init_chain now | Some c \<Rightarrow> c)"
  have r0: "ledger_reachable sha frepr chain0"
    using assms by (auto simp: chain0_def intro: genesis)
  show ?thesis
  proof (cases "button inp")
    case False
    then have "fst (script_run sha frepr now inp session) = chain0"
      by (simp add: script_run_def chain0_def Let_def split: sum.splits)
    with r0 show ?thesis by simp
  next
    case True
    show ?thesis
    proof (cases "secure_year sha frepr now inp chain0")
      case (Inl e)
      with True have "fst (script_run sha frepr now inp session) = chain0"
        by (simp add: script_run_def chain0_def Let_def)
      with r0 show ?thesis by simp
    next
      case (Inr chain')
      with True have "fst (script_run sha frepr now inp session) = chain'"
        by (simp add: script_run_def chain0_def Let_def split: sum.splits)
      with secure_year_reachable [OF r0 Inr] show ?thesis by simp
    qed
  qed
qed

lemma later_chain_blocks:
  "later_chain sha frepr = scenario_chain sha frepr @
     [\<lparr>index = 2,
       record_of = \<lparr>year = 2026, salary = 52000, accrual_rate = 1 / 49, cpi_index = 2 / 100\<rparr>,
       prev_hash = hash_block sha frepr (last (scenario_chain sha frepr)),
       timestamp = ''2026-01-01 09:00:00''\<rparr>]"
  by (simp add: later_chain_def script_run_def scenario_inputs_def secure_year_def
      append_block_def scenario_chain_blocks Let_def split: sum.splits)

lemma later_chain_reachable: "ledger_reachable sha frepr (later_chain sha frepr)"
  unfolding later_chain_def
  by (rule script_run_reachable) (simp add: scenario_chain_reachable)


subsection \<open>Auxiliary facts: the calculations in binary64 arithmetic\<close>

lemma to_double_neg_cases:
  assumes "double_round x < 0"
  shows "to_double x = NegInf \<or> (\<exists>y. to_double x = Finite y \<and> y < 0)"
proof -
  have "\<not> (2::real) ^ 1024 \<le> double_round x"
    using assms by (smt (verit) zero_less_power)
  with assms show ?thesis by (simp add: to_double_def Let_def)
qed

lemma to_double_zero: "double_round x = 0 \<Longrightarrow> to_double x = Finite 0"
  by (simp add: to_double_def)

lemma to_double_Finite: "to_double x = Finite t \<Longrightarrow> t = double_round x"
  by (simp add: to_double_def Let_def split: if_splits)

lemma fless_zero_cases:
  "fless (Finite c) a \<Longrightarrow> a = PosInf \<or> (\<exists>x. a = Finite x \<and> c < x)"
  by (cases a) simp_all

lemma float_of_int_Inr: "float_of_int i = Inr y \<Longrightarrow> \<exists>r. y = Finite r"
  by (cases "to_double (of_int i)") (auto simp: float_of_int_def)

lemma total_reduction_double_Finite:
  assumes "total_reduction_double npa_v retire_age_v rate = Inr (Finite t)"
  shows "\<exists>z. t = double_round z"
proof -
  from assms obtain y where y: "float_of_int (npa_v - retire_age_v) = Inr y"
    and m: "fmul y (Finite rate) = Finite t"
    by (auto simp: total_reduction_double_def Let_def split: sum.splits)
  from float_of_int_Inr [OF y] obtain r where "y = Finite r" by blast
  with m have "to_double (r * rate) = Finite t" by simp
  then show ?thesis by (blast dest: to_double_Finite)
qed

lemma one_minus_reduction:
  assumes tr: "total_reduction_double npa_v retire_age_v rate = Inr tr" and big: "fless (Finite 1) tr"
  shows "fsub (Finite 1) tr = NegInf \<or> (\<exists>y. fsub (Finite 1) tr = Finite y \<and> y < 0)"
proof -
  from fless_zero_cases [OF big] show ?thesis
  proof
    assume "tr = PosInf"
    then show ?thesis by (simp add: fsub_def)
  next
    assume "\<exists>t. tr = Finite t \<and> 1 < t"
    then obtain t where t: "tr = Finite t" "1 < t" by blast
    with total_reduction_double_Finite [of npa_v retire_age_v rate t] tr
    obtain z where z: "t = double_round z" by blast
    with t(2) have "double_round (1 - double_round z) < 0" by (simp add: double_round_diff_neg)
    then have "double_round (1 + - t) < 0" by (simp add: z)
    from to_double_neg_cases [OF this] show ?thesis by (simp add: fsub_def t(1))
  qed
qed

lemma to_double_one: "to_double 1 = Finite 1"
  using to_double_of_int [of 1] by simp

lemma to_double_five_quarters: "to_double (5 / 4) = Finite (5 / 4)"
  using to_double_exact [of "5 / 4" 5 "- 2"] by (simp add: power_int_minus)

lemma to_double_minus_quarter: "to_double (- (1 / 4)) = Finite (- (1 / 4))"
  using to_double_exact [of "- (1 / 4)" "- 1" "- 2"] by (simp add: power_int_minus)

lemma to_double_min_subnormal: "to_double (1 / 2 ^ 1074) = Finite (1 / 2 ^ 1074)"
  using to_double_exact [of "1 / 2 ^ 1074" 1 "- 1074"] by (simp add: power_int_minus field_simps)

lemma underflow_product: "to_double (1 / 2 ^ 1068 * (5882252574524729 / 2 ^ 58)) = Finite (1 / 2 ^ 1074)"
proof -
  let ?x = "1 / 2 ^ 1068 * (5882252574524729 / 2 ^ 58) :: real"
  have x: "?x = 5882252574524729 / 2 ^ 52 * 2 powi (- 1074)"
    by (simp add: power_int_minus field_simps)
  have lo: "2 powi (- 1074) \<le> \<bar>?x\<bar>"
    unfolding x by (simp add: abs_mult)
  have hi: "\<bar>?x\<bar> < 2 powi (- 1074 + 1)"
  proof -
    have "(2::real) powi (- 1074 + 1) = 2 * 2 powi (- 1074)"
      by (simp add: power_int_add del: power_int_numeral)
    then show ?thesis unfolding x by (simp add: abs_mult)
  qed
  have mx: "max (- 1074 - 52) (- 1074) = (- 1074 :: int)" by simp
  have q: "?x / 2 powi (- 1074) = 5882252574524729 / 2 ^ 52"
    unfolding x by simp
  have r: "round_half_even (5882252574524729 / 2 ^ 52) = 1"
    by (simp add: round_half_even_def Let_def)
  from double_round_eval [OF lo hi]
  have "double_round ?x = of_int (round_half_even (?x / 2 powi (- 1074))) * 2 powi (- 1074)"
    by (simp only: mx)
  also have "\<dots> = of_int 1 * 2 powi (- 1074)" by (simp only: q r)
  also have "\<dots> = 1 / 2 ^ 1074" by (simp add: power_int_minus field_simps)
  finally have dr: "double_round ?x = 1 / 2 ^ 1074" .
  have "\<not> (2::real) ^ 1024 \<le> 1 / 2 ^ 1074" "\<not> (1::real) / 2 ^ 1074 \<le> - (2 ^ 1024)" by simp_all
  then show ?thesis
    unfolding to_double_def Let_def dr by (simp only: if_False)
qed

lemma underflow_unit: "calculate_unit_double underflow_record = Finite (1 / 2 ^ 1074)"
  using underflow_product to_double_one to_double_min_subnormal
  by (simp add: calculate_unit_double_def underflow_record_def)

lemma underflow_total: "total_pension_raw_double (underflow_chain sha frepr) = Finite (1 / 2 ^ 1074)"
  using underflow_unit to_double_min_subnormal
  by (simp add: total_pension_raw_double_def underflow_chain_def init_chain_def)

lemma underflow_reduction: "total_reduction_double 67 66 (5 / 4) = Inr (Finite (5 / 4))"
  using to_double_one to_double_five_quarters
  by (simp add: total_reduction_double_def float_of_int_def)

lemma underflow_final:
  "final_pension_double (total_pension_raw_double (underflow_chain sha frepr)) 67 66 (5 / 4)
     = Inr (Finite 0)"
proof -
  have "\<bar>1 / 2 ^ 1074 * - (1 / 4) :: real\<bar> \<le> 2 powi (- 1075)"
    by (simp add: power_int_minus field_simps)
  then have "to_double (1 / 2 ^ 1074 * - (1 / 4)) = Finite 0"
    by (intro to_double_zero double_round_underflow)
  with underflow_total [of sha frepr] underflow_reduction to_double_minus_quarter
  show ?thesis
    by (simp add: final_pension_double_def fsub_def)
qed

lemma to_double_eval:
  assumes lo: "2 powi k \<le> \<bar>x\<bar>" and hi: "\<bar>x\<bar> < 2 powi (k + 1)"
    and k: "- 1022 \<le> k" "k \<le> 1022"
    and m: "round_half_even (x / 2 powi (k - 52)) = m" "\<bar>m\<bar> \<le> 2 ^ 53"
  shows "to_double x = Finite (of_int m * 2 powi (k - 52))"
proof -
  have mx: "max (k - 52) (- 1074) = k - 52" using k(1) by simp
  from double_round_eval [OF lo hi]
  have dr: "double_round x = of_int m * 2 powi (k - 52)" by (simp only: mx m(1))
  have "\<bar>real_of_int m\<bar> \<le> 2 ^ 53"
    using m(2) by (metis of_int_abs of_int_le_numeral_power_cancel_iff)
  then have "\<bar>real_of_int m\<bar> * 2 powi (k - 52) \<le> 2 ^ 53 * 2 powi (k - 52)"
    by (simp only: mult_le_cancel_right_pos zero_less_power_int zero_less_numeral)
  moreover have "(2::real) ^ 53 * 2 powi (k - 52) = 2 powi 53 * 2 powi (k - 52)" by simp
  moreover have "(2::real) powi 53 * 2 powi (k - 52) = 2 powi (k + 1)"
    by (simp add: power_int_add [symmetric] add.commute del: power_int_numeral)
  moreover have "(2::real) powi (k + 1) \<le> 2 powi 1023" using k(2) two_powi_le [of "k + 1" 1023] by simp
  moreover have "(2::real) powi 1023 < 2 ^ 1024" by simp
  moreover have "\<bar>of_int m * 2 powi (k - 52) :: real\<bar> = \<bar>real_of_int m\<bar> * 2 powi (k - 52)"
    by (simp add: abs_mult)
  ultimately have "\<bar>of_int m * 2 powi (k - 52) :: real\<bar> < 2 ^ 1024" by linarith
  then have "\<not> 2 ^ 1024 \<le> (of_int m * 2 powi (k - 52) :: real)"
    and "\<not> (of_int m * 2 powi (k - 52) :: real) \<le> - (2 ^ 1024)" by linarith+
  then show ?thesis unfolding to_double_def Let_def dr by (simp only: if_False)
qed

lemma stored_product: "to_double (50000 * (5882252574524729 / 2 ^ 58)) = Finite (8975605124702040 / 2 ^ 43)"
  using to_double_eval [of 9 "50000 * (5882252574524729 / 2 ^ 58)" 8975605124702040]
  by (simp add: round_half_even_def Let_def power_int_minus)

lemma stored_revaluation: "to_double (1 + 5764607523034235 / 2 ^ 58) = Finite (4593671619917906 / 2 ^ 52)"
  using to_double_eval [of 0 "1 + 5764607523034235 / 2 ^ 58" 4593671619917906]
  by (simp add: round_half_even_def Let_def power_int_minus)

lemma stored_unit_product:
  "to_double (8975605124702040 / 2 ^ 43 * (4593671619917906 / 2 ^ 52)) = Finite (4577558613598040 / 2 ^ 42)"
  using to_double_eval [of 10 "8975605124702040 / 2 ^ 43 * (4593671619917906 / 2 ^ 52)" 4577558613598040]
  by (simp add: round_half_even_def Let_def power_int_minus)

lemma stored_unit: "calculate_unit_double stored_scenario_record = Finite (4577558613598040 / 2 ^ 42)"
  using stored_product stored_revaluation stored_unit_product
  by (simp add: calculate_unit_double_def stored_scenario_record_def)

lemma stored_total:
  "total_pension_raw_double (stored_scenario_chain sha frepr) = Finite (4577558613598040 / 2 ^ 42)"
  using stored_unit to_double_exact [of "4577558613598040 / 2 ^ 42" 4577558613598040 "- 42"]
  by (simp add: total_pension_raw_double_def stored_scenario_chain_def init_chain_def power_int_minus)

lemma stored_reduction: "total_reduction_double 67 50 (1 / 16) = Inr (Finite (17 / 16))"
  using to_double_of_int [of 17] to_double_exact [of "17 / 16" 17 "- 4"]
  by (simp add: total_reduction_double_def float_of_int_def power_int_minus)

lemma stored_final:
  "final_pension_double (total_pension_raw_double (stored_scenario_chain sha frepr)) 67 50 (1 / 16)
     = Inr (Finite (- (4577558613598040 / 2 ^ 46)))"
  using stored_total [of sha frepr] stored_reduction
    to_double_exact [of "- (1 / 16)" "- 1" "- 4"]
    to_double_exact [of "- (4577558613598040 / 2 ^ 46)" "- 4577558613598040" "- 46"]
  by (simp add: final_pension_double_def fsub_def power_int_minus)

lemma underflow_chain_reachable: "ledger_reachable sha frepr (underflow_chain sha frepr)"
proof -
  have "append_block sha frepr ''2025-01-01 09:05:00'' underflow_record
          (init_chain ''2025-01-01 09:00:00'') = Inr (underflow_chain sha frepr)"
    by (simp add: append_block_Inr underflow_chain_def init_chain_def)
  with genesis show ?thesis by (rule appended)
qed

lemma stored_scenario_chain_reachable: "ledger_reachable sha frepr (stored_scenario_chain sha frepr)"
proof -
  have "append_block sha frepr ''2025-01-01 09:05:00'' stored_scenario_record
          (init_chain ''2025-01-01 09:00:00'') = Inr (stored_scenario_chain sha frepr)"
    by (simp add: append_block_Inr stored_scenario_chain_def init_chain_def)
  with genesis show ?thesis by (rule appended)
qed

subsection \<open>Auxiliary facts: executions of the script\<close>


lemma script_run_idle_chain:
  "fst (script_run sha frepr now (inp\<lparr>button := False\<rparr>) (Some chain)) = chain"
  by (simp add: script_run_def Let_def split: sum.splits)








lemma ledger_table_overflow:
  "ledger_table sha frepr
     [\<lparr>index = 1, record_of = \<lparr>year = 2025, salary = 50000, accrual_rate = 1 / 2 ^ 1030, cpi_index = 0\<rparr>,
       prev_hash = p, timestamp = t\<rparr>] = Inl OverflowError"
proof -
  have "double_round (2 ^ 1030) = 2 ^ 1030"
    using double_round_exact [of "2 ^ 1030" 1 1030] by simp
  then have "to_double (2 ^ 1030) = PosInf" by (simp add: to_double_def)
  then show ?thesis by simp
qed



lemma script_run_first_idle:
  "fst (script_run sha frepr now (inp\<lparr>button := False\<rparr>) None) = init_chain now"
  by (simp add: script_run_def Let_def split: sum.splits)

lemma scenario_session:
  "run_session sha frepr
     [(''2025-01-01 09:00:00'', scenario_inputs\<lparr>button := False\<rparr>),
      (''2025-01-01 09:05:00'', scenario_inputs)] None = Some (scenario_chain sha frepr)"
  by (simp add: scenario_chain_def script_run_first_idle)

lemma secure_year_Inr:
  "secure_year sha frepr now inp chain = Inr chain' \<Longrightarrow>
     \<exists>b. chain' = chain @ [b] \<and> timestamp b = now"
  by (auto simp: secure_year_def append_block_Inr Let_def split: if_splits)

lemma script_run_extends:
  "\<exists>new. fst (script_run sha frepr now inp session)
            = (case session of None \<Rightarrow> init_chain now | Some c \<Rightarrow> c) @ new \<and>
         length new \<le> 1 \<and> (\<forall>b \<in> set new. timestamp b = now)"
proof (cases "button inp")
  case False
  then have "fst (script_run sha frepr now inp session)
      = (case session of None \<Rightarrow> init_chain now | Some c \<Rightarrow> c) @ []"
    by (simp add: script_run_def Let_def split: sum.splits)
  then show ?thesis by (intro exI [of _ "[]"]) simp
next
  case True
  let ?c0 = "case session of None \<Rightarrow> init_chain now | Some c \<Rightarrow> c"
  show ?thesis
  proof (cases "secure_year sha frepr now inp ?c0")
    case (Inl e)
    with True have "fst (script_run sha frepr now inp session) = ?c0 @ []"
      by (simp add: script_run_def Let_def)
    then show ?thesis by (intro exI [of _ "[]"]) simp
  next
    case (Inr chain')
    from secure_year_Inr [OF Inr] obtain b where b: "chain' = ?c0 @ [b]" "timestamp b = now"
      by blast
    from Inr True have "fst (script_run sha frepr now inp session) = chain'"
      by (simp add: script_run_def Let_def split: sum.splits)
    with b show ?thesis by (intro exI [of _ "[b]"]) simp
  qed
qed

subsection \<open>Auxiliary facts: the text of a block\<close>

lemma digit_char_code: "d < 10 \<Longrightarrow> (of_char (digit_char d) :: nat) = 48 + d"
proof -
  assume "d < 10"
  then consider "d = 0" | "d = 1" | "d = 2" | "d = 3" | "d = 4" | "d = 5" | "d = 6" | "d = 7" | "d = 8" | "d = 9"
    by atomize_elim arith
  then show ?thesis
  proof cases
    case 1 then show ?thesis by (simp add: digit_char_def) next
    case 2 then show ?thesis by (simp add: digit_char_def) next
    case 3 then show ?thesis by (simp add: digit_char_def) next
    case 4 then show ?thesis by (simp add: digit_char_def) next
    case 5 then show ?thesis by (simp add: digit_char_def) next
    case 6 then show ?thesis by (simp add: digit_char_def) next
    case 7 then show ?thesis by (simp add: digit_char_def) next
    case 8 then show ?thesis by (simp add: digit_char_def) next
    case 9 then show ?thesis by (simp add: digit_char_def) next
    case 10 then show ?thesis by (simp add: digit_char_def)
  qed
qed

lemma digit_char_inj:
  assumes "d < 10" and "e < 10" and "digit_char d = digit_char e"
  shows "d = e"
proof -
  have "48 + d = (of_char (digit_char d) :: nat)"
    using assms(1) by (simp only: digit_char_code)
  also have "\<dots> = of_char (digit_char e)"
    by (simp only: assms(3))
  also have "\<dots> = 48 + e"
    using assms(2) by (simp only: digit_char_code)
  finally show ?thesis by simp
qed

lemma str_nat_codes:
  "c \<in> set (str_nat n) \<Longrightarrow> 48 \<le> (of_char c :: nat) \<and> (of_char c :: nat) \<le> 57"
proof (induction n rule: str_nat.induct)
  case (1 n)
  show ?case
  proof (cases "n < 10")
    case True
    with "1.prems" have "c = digit_char n" by (simp add: str_nat.simps [of n])
    with True show ?thesis by (simp add: digit_char_code)
  next
    case False
    with "1.prems" have "c \<in> set (str_nat (n div 10)) \<or> c = digit_char (n mod 10)"
      by (auto simp: str_nat.simps [of n])
    then show ?thesis
    proof
      assume "c \<in> set (str_nat (n div 10))"
      with False show ?thesis by (rule "1.IH")
    next
      assume "c = digit_char (n mod 10)"
      then show ?thesis by (simp add: digit_char_code)
    qed
  qed
qed

lemma str_nat_nonempty: "str_nat n \<noteq> []"
  by (simp add: str_nat.simps [of n])

lemma str_nat_length: "length (str_nat n) = 1 \<longleftrightarrow> n < 10"
proof (cases "n < 10")
  case True
  then show ?thesis by (simp add: str_nat.simps [of n])
next
  case False
  with str_nat_nonempty [of "n div 10"] show ?thesis by (simp add: str_nat.simps [of n])
qed

lemma str_nat_inj: "str_nat n = str_nat m \<Longrightarrow> n = m"
proof (induction n arbitrary: m rule: str_nat.induct)
  case (1 n)
  show ?case
  proof (cases "n < 10")
    case True
    then have "length (str_nat n) = 1" using str_nat_length [of n] by simp
    then have m: "m < 10" using "1.prems" str_nat_length [of m] by simp
    from True m "1.prems" have "digit_char n = digit_char m"
      by (simp add: str_nat.simps [of n] str_nat.simps [of m])
    with True m show ?thesis by (rule digit_char_inj)
  next
    case False
    then have "length (str_nat n) \<noteq> 1" using str_nat_length [of n] by simp
    then have m: "\<not> m < 10" using "1.prems" str_nat_length [of m] by simp
    from False m "1.prems"
    have eq: "str_nat (n div 10) @ [digit_char (n mod 10)] = str_nat (m div 10) @ [digit_char (m mod 10)]"
      by (simp add: str_nat.simps [of n] str_nat.simps [of m])
    then have "str_nat (n div 10) = str_nat (m div 10)" by simp
    with False have d: "n div 10 = m div 10" by (rule "1.IH")
    from eq have "digit_char (n mod 10) = digit_char (m mod 10)" by simp
    then have "n mod 10 = m mod 10" by (intro digit_char_inj) simp_all
    with d show ?thesis by (metis div_mult_mod_eq)
  qed
qed

lemma str_int_codes:
  "c \<in> set (str_int i) \<Longrightarrow>
     (of_char c :: nat) = 45 \<or> 48 \<le> (of_char c :: nat) \<and> (of_char c :: nat) \<le> 57"
  by (auto simp: str_int_def dest: str_nat_codes split: if_splits)

lemma str_nat_no_minus: "CHR ''-'' \<notin> set (str_nat n)"
  using str_nat_codes [of "CHR ''-''" n] by auto

lemma str_int_no_P: "CHR ''P'' \<notin> set (str_int i)"
  using str_int_codes [of "CHR ''P''" i] by auto

lemma str_int_no_comma: "CHR '','' \<notin> set (str_int i)"
  using str_int_codes [of "CHR '',''" i] by auto

lemma str_nat_hd: "hd (str_nat n) \<noteq> CHR ''-''"
  by (metis str_nat_no_minus str_nat_nonempty list.set_sel(1))

lemma str_int_inj: "str_int i = str_int j \<Longrightarrow> i = j"
proof -
  assume eq: "str_int i = str_int j"
  show ?thesis
  proof (cases "i < 0")
    case True
    show ?thesis
    proof (cases "j < 0")
      case jn: True
      with True eq have "str_nat (nat (- i)) = str_nat (nat (- j))" by (simp add: str_int_def)
      then have "nat (- i) = nat (- j)" by (rule str_nat_inj)
      with True jn show ?thesis by simp
    next
      case jp: False
      with True eq have "CHR ''-'' # str_nat (nat (- i)) = str_nat (nat j)" by (simp add: str_int_def)
      then have "hd (str_nat (nat j)) = CHR ''-''" by (metis list.sel(1))
      with str_nat_hd show ?thesis by simp
    qed
  next
    case False
    show ?thesis
    proof (cases "j < 0")
      case jn: True
      with False eq have "str_nat (nat i) = CHR ''-'' # str_nat (nat (- j))" by (simp add: str_int_def)
      then have "hd (str_nat (nat i)) = CHR ''-''" by simp
      with str_nat_hd show ?thesis by simp
    next
      case jp: False
      with False eq have "str_nat (nat i) = str_nat (nat j)" by (simp add: str_int_def)
      then have "nat i = nat j" by (rule str_nat_inj)
      with False jp show ?thesis by simp
    qed
  qed
qed

lemma split_at_mark:
  "c \<notin> set xs \<Longrightarrow> c \<notin> set ys \<Longrightarrow> xs @ c # r = ys @ c # r' \<Longrightarrow> xs = ys \<and> r = r'"
proof (induction xs arbitrary: ys)
  case Nil
  then show ?case by (cases ys) auto
next
  case (Cons x xs)
  then show ?case by (cases ys) auto
qed

lemma block_string_inj:
  assumes eq: "block_string frepr b1 = block_string frepr b2"
    and len: "length (timestamp b1) = length (timestamp b2)"
    and inj: "inj_on frepr (float_fields b1 \<union> float_fields b2)"
    and chars: "\<forall>x \<in> float_fields b1 \<union> float_fields b2.
                  CHR '','' \<notin> set (frepr x) \<and> CHR '')'' \<notin> set (frepr x)"
  shows "b1 = b2"
proof -
  let ?r1 = "record_of b1" and ?r2 = "record_of b2"
  have mem: "salary ?r1 \<in> float_fields b1 \<union> float_fields b2"
    "salary ?r2 \<in> float_fields b1 \<union> float_fields b2"
    "accrual_rate ?r1 \<in> float_fields b1 \<union> float_fields b2"
    "accrual_rate ?r2 \<in> float_fields b1 \<union> float_fields b2"
    "cpi_index ?r1 \<in> float_fields b1 \<union> float_fields b2"
    "cpi_index ?r2 \<in> float_fields b1 \<union> float_fields b2"
    by (simp_all add: float_fields_def)
  from eq have e0: "str_int (index b1) @ CHR ''P'' #
      (''ensionRecord(year='' @ str_int (year ?r1) @ CHR '','' #
        ('' salary='' @ frepr (salary ?r1) @ CHR '','' #
          ('' accrual_rate='' @ frepr (accrual_rate ?r1) @ CHR '','' #
            ('' cpi_index='' @ frepr (cpi_index ?r1) @ CHR '')'' #
               (prev_hash b1 @ timestamp b1)))))
    = str_int (index b2) @ CHR ''P'' #
      (''ensionRecord(year='' @ str_int (year ?r2) @ CHR '','' #
        ('' salary='' @ frepr (salary ?r2) @ CHR '','' #
          ('' accrual_rate='' @ frepr (accrual_rate ?r2) @ CHR '','' #
            ('' cpi_index='' @ frepr (cpi_index ?r2) @ CHR '')'' #
               (prev_hash b2 @ timestamp b2)))))"
    by (simp add: block_string_def repr_record_def)
  from split_at_mark [OF str_int_no_P str_int_no_P e0]
  have i: "str_int (index b1) = str_int (index b2)"
    and e1: "str_int (year ?r1) @ CHR '','' #
        ('' salary='' @ frepr (salary ?r1) @ CHR '','' #
          ('' accrual_rate='' @ frepr (accrual_rate ?r1) @ CHR '','' #
            ('' cpi_index='' @ frepr (cpi_index ?r1) @ CHR '')'' #
               (prev_hash b1 @ timestamp b1))))
      = str_int (year ?r2) @ CHR '','' #
        ('' salary='' @ frepr (salary ?r2) @ CHR '','' #
          ('' accrual_rate='' @ frepr (accrual_rate ?r2) @ CHR '','' #
            ('' cpi_index='' @ frepr (cpi_index ?r2) @ CHR '')'' #
               (prev_hash b2 @ timestamp b2))))"
    by simp_all
  from split_at_mark [OF str_int_no_comma str_int_no_comma e1]
  have y: "str_int (year ?r1) = str_int (year ?r2)"
    and e2: "frepr (salary ?r1) @ CHR '','' #
          ('' accrual_rate='' @ frepr (accrual_rate ?r1) @ CHR '','' #
            ('' cpi_index='' @ frepr (cpi_index ?r1) @ CHR '')'' #
               (prev_hash b1 @ timestamp b1)))
      = frepr (salary ?r2) @ CHR '','' #
          ('' accrual_rate='' @ frepr (accrual_rate ?r2) @ CHR '','' #
            ('' cpi_index='' @ frepr (cpi_index ?r2) @ CHR '')'' #
               (prev_hash b2 @ timestamp b2)))"
    by simp_all
  have c1: "CHR '','' \<notin> set (frepr (salary ?r1))" "CHR '','' \<notin> set (frepr (salary ?r2))"
    using chars mem by blast+
  from split_at_mark [OF c1 e2]
  have s: "frepr (salary ?r1) = frepr (salary ?r2)"
    and e3: "frepr (accrual_rate ?r1) @ CHR '','' #
            ('' cpi_index='' @ frepr (cpi_index ?r1) @ CHR '')'' #
               (prev_hash b1 @ timestamp b1))
      = frepr (accrual_rate ?r2) @ CHR '','' #
            ('' cpi_index='' @ frepr (cpi_index ?r2) @ CHR '')'' #
               (prev_hash b2 @ timestamp b2))"
    by simp_all
  have c2: "CHR '','' \<notin> set (frepr (accrual_rate ?r1))" "CHR '','' \<notin> set (frepr (accrual_rate ?r2))"
    using chars mem by blast+
  from split_at_mark [OF c2 e3]
  have a: "frepr (accrual_rate ?r1) = frepr (accrual_rate ?r2)"
    and e4: "frepr (cpi_index ?r1) @ CHR '')'' # (prev_hash b1 @ timestamp b1)
      = frepr (cpi_index ?r2) @ CHR '')'' # (prev_hash b2 @ timestamp b2)"
    by simp_all
  have c3: "CHR '')'' \<notin> set (frepr (cpi_index ?r1))" "CHR '')'' \<notin> set (frepr (cpi_index ?r2))"
    using chars mem by blast+
  from split_at_mark [OF c3 e4]
  have c: "frepr (cpi_index ?r1) = frepr (cpi_index ?r2)"
    and e5: "prev_hash b1 @ timestamp b1 = prev_hash b2 @ timestamp b2"
    by simp_all
  from e5 len have pt: "prev_hash b1 = prev_hash b2 \<and> timestamp b1 = timestamp b2"
    by simp
  from i have i': "index b1 = index b2" by (rule str_int_inj)
  from y have y': "year ?r1 = year ?r2" by (rule str_int_inj)
  from s inj mem have s': "salary ?r1 = salary ?r2" by (simp add: inj_on_def)
  from a inj mem have a': "accrual_rate ?r1 = accrual_rate ?r2" by (simp add: inj_on_def)
  from c inj mem have c': "cpi_index ?r1 = cpi_index ?r2" by (simp add: inj_on_def)
  from y' s' a' c' have "?r1 = ?r2" by simp
  with i' pt show ?thesis by simp
qed

subsection \<open>Unit value of a record\<close>

text \<open>
  C8. \<open>calculate_unit\<close> returns salary times accrual rate times (1 + CPI index), a
  function of the record alone. For the record of year 2025 with salary 50000, accrual
  rate 1/49 and CPI index 0.02 the unit is 50000 * (1/49) * 1.02, within 0.0001 of
  1040.8163.
\<close>

theorem calculate_unit_formula:
  "calculate_unit r = salary r * accrual_rate r * (1 + cpi_index r) \<and>
   calculate_unit \<lparr>year = 2025, salary = 50000, accrual_rate = 1 / 49, cpi_index = 0.02\<rparr>
     = 50000 * (1 / 49) * 1.02 \<and>
   \<bar>calculate_unit \<lparr>year = 2025, salary = 50000, accrual_rate = 1 / 49, cpi_index = 0.02\<rparr>
      - 1040.8163\<bar> < 0.0001"
  by (simp add: calculate_unit_def)

subsection \<open>Aggregation and projection\<close>

text \<open>
  C4. The raw total is the sum of the unit values of the records at positions
  1 up to the end of the chain; the first block does not enter the sum, whatever it
  holds; for a chain of one block the total is 0.
\<close>

theorem total_pension_raw_aggregates:
  "total_pension_raw chain = (\<Sum>i = 1..<length chain. calculate_unit (record_of (chain ! i))) \<and>
   total_pension_raw (g # rest) = (\<Sum>b\<leftarrow>rest. calculate_unit (record_of b)) \<and>
   total_pension_raw [g] = 0"
  using total_pension_raw_nth [of chain] by (simp add: total_pension_raw_sum_list)

text \<open>
  C3. When the planned retirement age is below the normal pension age, the reduction
  is the number of years early times the annual rate and the final pension is the raw
  total times (1 - reduction); otherwise the final pension is the raw total, no
  reduction being applied. For ages 67 and 65 and rate 0.04 the final pension is the
  raw total times 0.92.
\<close>

theorem calculations_projection:
  "raw_total (calculations chain npa_v retire_age_v rate) = total_pension_raw chain \<and>
   (retire_age_v < npa_v \<longrightarrow>
      final_pension (calculations chain npa_v retire_age_v rate)
        = total_pension_raw chain * (1 - real_of_int (npa_v - retire_age_v) * rate) \<and>
      status (calculations chain npa_v retire_age_v rate)
        = Early_Retirement (real_of_int (npa_v - retire_age_v) * rate) (npa_v - retire_age_v)) \<and>
   (npa_v \<le> retire_age_v \<longrightarrow>
      final_pension (calculations chain npa_v retire_age_v rate) = total_pension_raw chain * (1 - 0) \<and>
      status (calculations chain npa_v retire_age_v rate) = At_Or_After_NPA) \<and>
   final_pension (calculations chain 67 65 0.04) = total_pension_raw chain * 0.92"
  by (simp add: calculations_def Let_def algebra_simps)

theorem calculations_projection_witness:
  "\<forall>sha frepr.
     (65::int) < 67 \<and> (67::int) \<le> 67 \<and>
     final_pension (calculations (scenario_chain sha frepr) 67 65 0.04)
       = 51000 / 49 * (1 - 2 * 0.04) \<and>
     status (calculations (scenario_chain sha frepr) 67 65 0.04) = Early_Retirement (2 * 0.04) 2 \<and>
     final_pension (calculations (scenario_chain sha frepr) 67 67 0.04) = 51000 / 49 \<and>
     status (calculations (scenario_chain sha frepr) 67 67 0.04) = At_Or_After_NPA"
proof (intro allI)
  fix sha frepr
  show "(65::int) < 67 \<and> (67::int) \<le> 67 \<and>
     final_pension (calculations (scenario_chain sha frepr) 67 65 0.04)
       = 51000 / 49 * (1 - 2 * 0.04) \<and>
     status (calculations (scenario_chain sha frepr) 67 65 0.04) = Early_Retirement (2 * 0.04) 2 \<and>
     final_pension (calculations (scenario_chain sha frepr) 67 67 0.04) = 51000 / 49 \<and>
     status (calculations (scenario_chain sha frepr) 67 67 0.04) = At_Or_After_NPA"
    using calculations_projection [of "scenario_chain sha frepr" 67 65 "0.04"]
      calculations_projection [of "scenario_chain sha frepr" 67 67 "0.04"]
    by (simp add: scenario_total)
qed

text \<open>
  C5, as amended. In binary64 arithmetic the reduction is not clamped: with a positive
  raw total (that of any ledger), retirement before the normal pension age and a total
  reduction above 1, the final pension is computed (no exception), and it is strictly
  negative, except when the exact product of the raw total and \<open>1 - total_reduction\<close>
  is at most \<open>2^-1075\<close> in magnitude: then the product underflows and the final
  pension is zero (the float \<open>-0.0\<close>). It is never positive and never NaN.
\<close>

theorem final_pension_double_not_clamped:
  assumes raw: "fless (Finite 0) raw"
    and early: "retire_age_v < npa_v"
    and tr: "total_reduction_double npa_v retire_age_v rate = Inr tr"
    and big: "fless (Finite 1) tr"
  shows "\<exists>f. final_pension_double raw npa_v retire_age_v rate = Inr f \<and>
           (fless f (Finite 0) \<or>
            f = Finite 0 \<and>
            (\<exists>x y. raw = Finite x \<and> fsub (Finite 1) tr = Finite y \<and>
                   x * (- y) \<le> 2 powi (- 1075)))"
proof -
  let ?d = "fsub (Finite 1) tr"
  have fin: "final_pension_double raw npa_v retire_age_v rate = Inr (fmul raw ?d)"
    using early tr by (simp add: final_pension_double_def)
  from one_minus_reduction [OF tr big]
  have d: "?d = NegInf \<or> (\<exists>y. ?d = Finite y \<and> y < 0)" .
  from fless_zero_cases [OF raw]
  have r: "raw = PosInf \<or> (\<exists>x. raw = Finite x \<and> 0 < x)" .
  have "fless (fmul raw ?d) (Finite 0) \<or>
        fmul raw ?d = Finite 0 \<and>
        (\<exists>x y. raw = Finite x \<and> ?d = Finite y \<and> x * (- y) \<le> 2 powi (- 1075))"
  proof (cases "\<exists>x y. raw = Finite x \<and> ?d = Finite y")
    case True
    then obtain x y where xy: "raw = Finite x" "?d = Finite y" by blast
    with r d have x: "0 < x" and y: "y < 0" by auto
    show ?thesis
    proof (cases "x * (- y) \<le> 2 powi (- 1075)")
      case small: True
      have "\<bar>x * y\<bar> = x * (- y)" using x y by (simp add: abs_mult)
      with small have "double_round (x * y) = 0" by (simp add: double_round_underflow)
      then have "fmul raw ?d = Finite 0" by (simp add: xy to_double_zero)
      with small xy show ?thesis by blast
    next
      case False
      then have "x * y < - (2 powi (- 1075))" by simp
      then have "double_round (x * y) < 0" by (rule double_round_neg)
      from to_double_neg_cases [OF this] have "fless (fmul raw ?d) (Finite 0)"
        by (auto simp: xy)
      then show ?thesis ..
    qed
  next
    case False
    with r d have "fmul raw ?d = NegInf" by auto
    then show ?thesis by simp
  qed
  with fin show ?thesis by blast
qed

theorem final_pension_double_not_clamped_witness:
  "\<forall>sha frepr.
     fless (Finite 0) (total_pension_raw_double (stored_scenario_chain sha frepr)) \<and>
     (50::int) < 67 \<and>
     total_reduction_double 67 50 (1 / 16) = Inr (Finite (17 / 16)) \<and>
     fless (Finite 1) (Finite (17 / 16)) \<and>
     final_pension_double (total_pension_raw_double (stored_scenario_chain sha frepr)) 67 50 (1 / 16)
       = Inr (Finite (- (4577558613598040 / 2 ^ 46))) \<and>
     (\<exists>f. final_pension_double (total_pension_raw_double (stored_scenario_chain sha frepr)) 67 50 (1 / 16) = Inr f \<and>
        fless f (Finite 0))"
proof (intro allI)
  fix sha frepr
  let ?c = "stored_scenario_chain sha frepr"
  have a: "fless (Finite 0) (total_pension_raw_double ?c)" by (simp add: stored_total)
  have b: "(50::int) < 67" by simp
  have d: "fless (Finite 1) (Finite (17 / 16))" by simp
  from final_pension_double_not_clamped [OF a b stored_reduction d]
  have "\<exists>f. final_pension_double (total_pension_raw_double ?c) 67 50 (1 / 16) = Inr f \<and> fless f (Finite 0)"
    by (auto simp: stored_final)
  with a b d stored_reduction stored_final [of sha frepr]
  show "fless (Finite 0) (total_pension_raw_double ?c) \<and>
     (50::int) < 67 \<and>
     total_reduction_double 67 50 (1 / 16) = Inr (Finite (17 / 16)) \<and>
     fless (Finite 1) (Finite (17 / 16)) \<and>
     final_pension_double (total_pension_raw_double ?c) 67 50 (1 / 16) = Inr (Finite (- (4577558613598040 / 2 ^ 46))) \<and>
     (\<exists>f. final_pension_double (total_pension_raw_double ?c) 67 50 (1 / 16) = Inr f \<and> fless f (Finite 0))"
    by blast
qed

text \<open>
  C5, as stated, fails: for the chain with the one contribution of salary \<open>2^-1068\<close>
  the raw total is \<open>2^-1074\<close>, which is positive; retiring at 66 with normal pension
  age 67 and a reduction of 125 per cent a year gives the total reduction 1.25, which
  is above 1; the final pension is the product of \<open>2^-1074\<close> and \<open>-0.25\<close> rounded, which
  is zero, and zero is not below zero.
\<close>

theorem final_pension_underflows_to_zero:
  "\<forall>sha frepr.
     ledger_reachable sha frepr (underflow_chain sha frepr) \<and>
     total_pension_raw_double (underflow_chain sha frepr) = Finite (1 / 2 ^ 1074) \<and>
     fless (Finite 0) (total_pension_raw_double (underflow_chain sha frepr)) \<and>
     (66::int) < 67 \<and>
     total_reduction_double 67 66 (5 / 4) = Inr (Finite (5 / 4)) \<and>
     fless (Finite 1) (Finite (5 / 4)) \<and>
     final_pension_double (total_pension_raw_double (underflow_chain sha frepr)) 67 66 (5 / 4) = Inr (Finite 0) \<and>
     \<not> fless (Finite 0) (Finite 0)"
proof (intro allI conjI)
  fix sha frepr
  show "ledger_reachable sha frepr (underflow_chain sha frepr)" by (rule underflow_chain_reachable)
  show "total_pension_raw_double (underflow_chain sha frepr) = Finite (1 / 2 ^ 1074)"
    by (rule underflow_total)
  show "fless (Finite 0) (total_pension_raw_double (underflow_chain sha frepr))"
    by (simp add: underflow_total)
  show "(66::int) < 67" by simp
  show "total_reduction_double 67 66 (5 / 4) = Inr (Finite (5 / 4))" by (rule underflow_reduction)
  show "fless (Finite 1) (Finite (5 / 4))" by simp
  show "final_pension_double (total_pension_raw_double (underflow_chain sha frepr)) 67 66 (5 / 4) = Inr (Finite 0)"
    by (rule underflow_final)
  show "\<not> fless (Finite 0) (Finite 0)" by simp
qed

subsection \<open>The chain\<close>

text \<open>
  C1. Every chain reachable from the initial chain by appends is non-empty; its first
  block has index 0, previous hash \<open>"0"\<close> and the record of year 2023 with salary,
  accrual rate and CPI index 0; the index of every block is its position; and every
  later block stores the recomputed hash of its predecessor.
\<close>

theorem chain_integrity:
  assumes "ledger_reachable sha frepr chain"
  shows "chain \<noteq> [] \<and>
         index (chain ! 0) = 0 \<and> prev_hash (chain ! 0) = ''0'' \<and>
         record_of (chain ! 0) = \<lparr>year = 2023, salary = 0, accrual_rate = 0, cpi_index = 0\<rparr> \<and>
         (\<forall>i < length chain. index (chain ! i) = int i) \<and>
         (\<forall>i. 0 < i \<and> i < length chain \<longrightarrow>
            prev_hash (chain ! i) = hash_block sha frepr (chain ! (i - 1)))"
  using assms by (rule ledger_reachable_invariant)

theorem chain_integrity_witness:
  "\<forall>sha frepr.
     ledger_reachable sha frepr (later_chain sha frepr) \<and>
     length (later_chain sha frepr) = 3 \<and>
     map index (later_chain sha frepr) = [0, 1, 2] \<and>
     prev_hash (later_chain sha frepr ! 0) = ''0'' \<and>
     prev_hash (later_chain sha frepr ! 1) = hash_block sha frepr (later_chain sha frepr ! 0) \<and>
     prev_hash (later_chain sha frepr ! 2) = hash_block sha frepr (later_chain sha frepr ! 1)"
proof (intro allI)
  fix sha frepr
  let ?c = "later_chain sha frepr"
  have len: "length ?c = 3" and idx: "map index ?c = [0, 1, 2]"
    by (simp_all add: later_chain_blocks scenario_chain_blocks)
  from chain_integrity [OF later_chain_reachable [of sha frepr]]
  have g: "prev_hash (?c ! 0) = ''0''"
    and l: "\<forall>i. 0 < i \<and> i < length ?c \<longrightarrow> prev_hash (?c ! i) = hash_block sha frepr (?c ! (i - 1))"
    by blast+
  from l len have "prev_hash (?c ! 1) = hash_block sha frepr (?c ! (1 - 1))"
    "prev_hash (?c ! 2) = hash_block sha frepr (?c ! (2 - 1))"
    by simp_all
  with g len idx later_chain_reachable [of sha frepr]
  show "ledger_reachable sha frepr ?c \<and> length ?c = 3 \<and> map index ?c = [0, 1, 2] \<and>
     prev_hash (?c ! 0) = ''0'' \<and>
     prev_hash (?c ! 1) = hash_block sha frepr (?c ! 0) \<and>
     prev_hash (?c ! 2) = hash_block sha frepr (?c ! 1)"
    by simp
qed

text \<open>
  C9. An append to a non-empty chain (every ledger state is one) succeeds; the chain
  grows by exactly one block, stored last; its index is the new length minus 1, its
  previous hash is the hash of the block that was last, it holds the appended record,
  and the blocks stored before are unchanged.
\<close>

theorem append_block_monotone:
  assumes "chain \<noteq> []"
  shows "\<exists>chain'. append_block sha frepr now r chain = Inr chain' \<and>
           length chain' = length chain + 1 \<and>
           index (last chain') = int (length chain') - 1 \<and>
           prev_hash (last chain') = hash_block sha frepr (last chain) \<and>
           record_of (last chain') = r \<and>
           take (length chain) chain' = chain"
  using assms by (simp add: append_block_Inr)

theorem append_block_monotone_witness:
  "\<forall>sha frepr.
     scenario_chain sha frepr \<noteq> [] \<and>
     (\<exists>chain'. append_block sha frepr ''2026-01-01 09:00:00'' genesis_record (scenario_chain sha frepr)
                 = Inr chain' \<and> length chain' = 3 \<and> index (last chain') = 2 \<and>
               prev_hash (last chain') = hash_block sha frepr (scenario_chain sha frepr ! 1))"
proof (intro allI)
  fix sha frepr
  have ne: "scenario_chain sha frepr \<noteq> []" by (simp add: scenario_chain_blocks)
  from append_block_monotone [OF ne, of sha frepr "''2026-01-01 09:00:00''" genesis_record] ne
  show "scenario_chain sha frepr \<noteq> [] \<and>
     (\<exists>chain'. append_block sha frepr ''2026-01-01 09:00:00'' genesis_record (scenario_chain sha frepr)
                 = Inr chain' \<and> length chain' = 3 \<and> index (last chain') = 2 \<and>
               prev_hash (last chain') = hash_block sha frepr (scenario_chain sha frepr ! 1))"
    by (auto simp: scenario_chain_blocks)
qed

subsection \<open>The hash of a block\<close>

text \<open>
  C6. The digest is determined by the four fields of the block: blocks with equal
  index, record, previous hash and timestamp have equal digests; it is the library
  digest of the text of those fields; and an execution of the script that only reads
  the chain (hashing every displayed block) leaves the stored chain as it was.
\<close>

theorem hash_block_deterministic:
  "(index b1 = index b2 \<and> record_of b1 = record_of b2 \<and> prev_hash b1 = prev_hash b2 \<and>
      timestamp b1 = timestamp b2 \<longrightarrow> hash_block sha frepr b1 = hash_block sha frepr b2) \<and>
   hash_block sha frepr b = sha (block_string frepr b) \<and>
   fst (script_run sha frepr now (inp\<lparr>button := False\<rparr>) (Some chain)) = chain"
  by (simp add: hash_block_def block_string_def script_run_idle_chain)

theorem hash_block_deterministic_witness:
  "\<forall>sha frepr.
     hash_block sha frepr (scenario_chain sha frepr ! 0)
       = hash_block sha frepr (hd (init_chain ''2025-01-01 09:00:00'')) \<and>
     prev_hash (scenario_chain sha frepr ! 1) = hash_block sha frepr (scenario_chain sha frepr ! 0)"
proof (intro allI)
  fix sha frepr
  have f: "index (scenario_chain sha frepr ! 0) = index (hd (init_chain ''2025-01-01 09:00:00'')) \<and>
      record_of (scenario_chain sha frepr ! 0) = record_of (hd (init_chain ''2025-01-01 09:00:00'')) \<and>
      prev_hash (scenario_chain sha frepr ! 0) = prev_hash (hd (init_chain ''2025-01-01 09:00:00'')) \<and>
      timestamp (scenario_chain sha frepr ! 0) = timestamp (hd (init_chain ''2025-01-01 09:00:00''))"
    by (simp add: scenario_chain_blocks init_chain_def)
  from hash_block_deterministic [of "scenario_chain sha frepr ! 0"
      "hd (init_chain ''2025-01-01 09:00:00'')" sha frepr] f
  have "hash_block sha frepr (scenario_chain sha frepr ! 0)
       = hash_block sha frepr (hd (init_chain ''2025-01-01 09:00:00''))"
    by blast
  then show "hash_block sha frepr (scenario_chain sha frepr ! 0)
       = hash_block sha frepr (hd (init_chain ''2025-01-01 09:00:00'')) \<and>
     prev_hash (scenario_chain sha frepr ! 1) = hash_block sha frepr (scenario_chain sha frepr ! 0)"
    by (simp add: scenario_chain_blocks)
qed

text \<open>
  C7, as amended. The text that is hashed has no separator between the previous hash
  and the timestamp, so it is not injective on blocks in general. It is injective on
  blocks whose timestamps have the same length (as the 19 characters of
  \<open>%Y-%m-%d %H:%M:%S\<close>), provided the \<open>repr\<close> of floats is injective on the float
  fields of the two blocks and yields neither a comma nor a closing parenthesis.
\<close>

theorem block_string_distinct:
  assumes "b1 \<noteq> b2"
    and "length (timestamp b1) = length (timestamp b2)"
    and "inj_on frepr (float_fields b1 \<union> float_fields b2)"
    and "\<forall>x \<in> float_fields b1 \<union> float_fields b2.
           CHR '','' \<notin> set (frepr x) \<and> CHR '')'' \<notin> set (frepr x)"
  shows "block_string frepr b1 \<noteq> block_string frepr b2"
  using assms block_string_inj [of frepr b1 b2] by blast

theorem block_string_distinct_witness:
  "\<forall>sha.
     scenario_chain sha scenario_frepr ! 0 \<noteq> scenario_chain sha scenario_frepr ! 1 \<and>
     length (timestamp (scenario_chain sha scenario_frepr ! 0))
       = length (timestamp (scenario_chain sha scenario_frepr ! 1)) \<and>
     inj_on scenario_frepr
       (float_fields (scenario_chain sha scenario_frepr ! 0)
          \<union> float_fields (scenario_chain sha scenario_frepr ! 1)) \<and>
     block_string scenario_frepr (scenario_chain sha scenario_frepr ! 0)
       \<noteq> block_string scenario_frepr (scenario_chain sha scenario_frepr ! 1)"
proof (intro allI)
  fix sha
  let ?b1 = "scenario_chain sha scenario_frepr ! 0" and ?b2 = "scenario_chain sha scenario_frepr ! 1"
  have ff: "float_fields ?b1 \<union> float_fields ?b2 = {0, 50000, 1 / 49, 2 / 100}"
    by (auto simp: float_fields_def scenario_chain_blocks genesis_record_def)
  have a: "?b1 \<noteq> ?b2" by (simp add: scenario_chain_blocks)
  have b: "length (timestamp ?b1) = length (timestamp ?b2)" by (simp add: scenario_chain_blocks)
  have c: "inj_on scenario_frepr (float_fields ?b1 \<union> float_fields ?b2)"
    unfolding ff by (simp add: scenario_frepr_def)
  have d: "\<forall>x \<in> float_fields ?b1 \<union> float_fields ?b2.
           CHR '','' \<notin> set (scenario_frepr x) \<and> CHR '')'' \<notin> set (scenario_frepr x)"
    unfolding ff by (simp add: scenario_frepr_def)
  from block_string_distinct [OF a b c d] a b c
  show "?b1 \<noteq> ?b2 \<and> length (timestamp ?b1) = length (timestamp ?b2) \<and>
     inj_on scenario_frepr (float_fields ?b1 \<union> float_fields ?b2) \<and>
     block_string scenario_frepr ?b1 \<noteq> block_string scenario_frepr ?b2"
    by blast
qed

text \<open>
  C7, as stated, fails: two different blocks, one with previous hash \<open>"0"\<close> and a
  full timestamp, one with the first four characters of that timestamp moved to the
  end of the previous hash, have the same text, whatever the \<open>repr\<close> of floats.
\<close>

theorem block_string_collision:
  "\<forall>frepr.
     block_string frepr
       \<lparr>index = 0, record_of = genesis_record, prev_hash = ''0'', timestamp = ''2025-01-01 09:00:00''\<rparr>
     = block_string frepr
       \<lparr>index = 0, record_of = genesis_record, prev_hash = ''02025'', timestamp = ''-01-01 09:00:00''\<rparr>
     \<and> \<lparr>index = 0, record_of = genesis_record, prev_hash = ''0'', timestamp = ''2025-01-01 09:00:00''\<rparr>
       \<noteq> \<lparr>index = 0, record_of = genesis_record, prev_hash = ''02025'', timestamp = ''-01-01 09:00:00''\<rparr>"
  by (simp add: block_string_def)

subsection \<open>Timestamps\<close>

text \<open>
  C10, as amended. The default timestamp is computed once in each execution of the
  script. Every block constructed in an execution carries the clock value of that
  execution: when the session holds no chain, all blocks of the resulting chain do;
  when it holds one, the execution adds at most one block, with that timestamp, and
  leaves the stored blocks, with their own timestamps, in place.
\<close>

theorem script_run_timestamps:
  "(\<forall>b \<in> set (fst (script_run sha frepr now inp None)). timestamp b = now) \<and>
   (\<exists>new. fst (script_run sha frepr now inp (Some chain)) = chain @ new \<and>
           length new \<le> 1 \<and> (\<forall>b \<in> set new. timestamp b = now))"
proof
  from script_run_extends [of sha frepr now inp None]
  show "\<forall>b \<in> set (fst (script_run sha frepr now inp None)). timestamp b = now"
    by (auto simp: init_chain_def)
next
  from script_run_extends [of sha frepr now inp "Some chain"]
  show "\<exists>new. fst (script_run sha frepr now inp (Some chain)) = chain @ new \<and>
           length new \<le> 1 \<and> (\<forall>b \<in> set new. timestamp b = now)"
    by simp
qed

theorem script_run_timestamps_witness:
  "\<forall>sha frepr.
     map timestamp (fst (script_run sha frepr ''2025-01-01 09:00:00'' scenario_inputs None))
       = [''2025-01-01 09:00:00'', ''2025-01-01 09:00:00''] \<and>
     timestamp (last (fst (script_run sha frepr ''2025-01-01 09:00:00'' scenario_inputs None)))
       = ''2025-01-01 09:00:00''"
proof (intro allI)
  fix sha frepr
  let ?c = "fst (script_run sha frepr ''2025-01-01 09:00:00'' scenario_inputs None)"
  have m: "map timestamp ?c = [''2025-01-01 09:00:00'', ''2025-01-01 09:00:00'']"
    by (simp add: script_run_def Let_def scenario_inputs_def secure_year_def append_block_def
        init_chain_def split: sum.splits)
  then have "?c \<noteq> []" by auto
  then have "last ?c \<in> set ?c" by simp
  with script_run_timestamps [of sha frepr "''2025-01-01 09:00:00''" scenario_inputs]
  have "timestamp (last ?c) = ''2025-01-01 09:00:00''" by blast
  with m show "map timestamp ?c = [''2025-01-01 09:00:00'', ''2025-01-01 09:00:00''] \<and>
     timestamp (last ?c) = ''2025-01-01 09:00:00''" by simp
qed

text \<open>
  C10, as stated, fails: a session whose first execution creates the chain at
  09:00:00 and whose second execution appends a block at 09:05:00 holds two blocks
  with different timestamps.
\<close>

theorem timestamps_differ_between_runs:
  "\<forall>sha frepr.
     run_session sha frepr
       [(''2025-01-01 09:00:00'', scenario_inputs\<lparr>button := False\<rparr>),
        (''2025-01-01 09:05:00'', scenario_inputs)] None = Some (scenario_chain sha frepr) \<and>
     timestamp (scenario_chain sha frepr ! 0) = ''2025-01-01 09:00:00'' \<and>
     timestamp (scenario_chain sha frepr ! 1) = ''2025-01-01 09:05:00'' \<and>
     timestamp (scenario_chain sha frepr ! 0) \<noteq> timestamp (scenario_chain sha frepr ! 1)"
proof (intro allI conjI)
  fix sha frepr
  show "run_session sha frepr
       [(''2025-01-01 09:00:00'', scenario_inputs\<lparr>button := False\<rparr>),
        (''2025-01-01 09:05:00'', scenario_inputs)] None = Some (scenario_chain sha frepr)"
    by (rule scenario_session)
  show "timestamp (scenario_chain sha frepr ! 0) = ''2025-01-01 09:00:00''"
    by (simp add: scenario_chain_blocks)
  show "timestamp (scenario_chain sha frepr ! 1) = ''2025-01-01 09:05:00''"
    by (simp add: scenario_chain_blocks)
  show "timestamp (scenario_chain sha frepr ! 0) \<noteq> timestamp (scenario_chain sha frepr ! 1)"
    by (simp add: scenario_chain_blocks)
qed

subsection \<open>Tampering\<close>




end
